theory Spec2Isabelle
  imports Main
begin

section \<open>Data model\<close>

text \<open>
  The values that flow through the loader of \<^verbatim>\<open>src/index.js\<close>: what a module exports,
  what is passed as an extra argument, the server and the socket.
  \<^item> \<open>VNum\<close>, \<open>VStr\<close>, \<open>VObj\<close> are values for which \<^verbatim>\<open>typeof v !== 'function'\<close>
    (\<open>VObj\<close> is an opaque object named by an identity, such as a server or a socket);
  \<^item> \<open>VFun f\<close> is a callable whose source text does not match \<^verbatim>\<open>/^\s*class\s+/\<close>,
    named by its identity \<open>f\<close>;
  \<^item> \<open>VClass c\<close> is a callable whose source text matches \<^verbatim>\<open>/^\s*class\s+/\<close>: a class
    declaration, which the language refuses to call without \<^verbatim>\<open>new\<close>;
  \<^item> \<open>VBound a\<close> is the result of \<^verbatim>\<open>instance.connection.bind(instance)\<close> for the
    instance stored at address \<open>a\<close>; only \<open>into\<close> creates such values.
\<close>

datatype val = VNum int | VStr string | VObj nat | VFun string | VClass string | VBound nat

datatype error = TypeError string | Error string | UserThrown string

datatype completion = Returned | Thrown error

datatype level = LInfo | LWarn | LError | LLog

text \<open>
  The member \<^verbatim>\<open>connection\<close> of a fresh instance: absent (\<^verbatim>\<open>'connection' in instance\<close> is
  false), present but without a usable \<^verbatim>\<open>bind\<close>, or a method. A method takes the
  instance state and the call's arguments and gives the new instance state and, when it
  throws, the message.
\<close>

datatype 's member = Absent | NotCallable | Method "'s \<Rightarrow> val list \<Rightarrow> 's \<times> string option"

record 's class_decl =
  construct :: "string + 's"
  connection :: "'s member"

text \<open>
  What a module's code, or \<^verbatim>\<open>require\<close> itself, may throw while the module loads, as the
  \<^verbatim>\<open>catch\<close> of \<open>into\<close> sees it when it reads \<^verbatim>\<open>error.message\<close>:
  \<^item> \<open>WithMessage m\<close>: a value with a \<^verbatim>\<open>message\<close> that prints as \<open>m\<close>, such as an
    \<^verbatim>\<open>Error\<close>;
  \<^item> \<open>NoMessage\<close>: a value on which \<^verbatim>\<open>message\<close> is \<^verbatim>\<open>undefined\<close>, such as a string, a
    number or a plain object;
  \<^item> \<open>Nullish\<close>: \<^verbatim>\<open>null\<close> or \<^verbatim>\<open>undefined\<close>, on which reading a member throws.
\<close>

datatype thrown = WithMessage string | NoMessage | Nullish

text \<open>
  The collaborators the loader consumes: \<^verbatim>\<open>path\<close>, \<^verbatim>\<open>fs\<close>, \<^verbatim>\<open>process.cwd()\<close>,
  \<^verbatim>\<open>require\<close> followed by \<^verbatim>\<open>Object.keys(T).map(e => T[e])\<close> (\<open>Inl\<close> what was thrown
  inside the \<^verbatim>\<open>try\<close>, \<open>Inr\<close> the export values in key order), and the code of
  the exported classes and functions (a plain function returns, \<open>None\<close>, or throws a
  message). The file system calls are taken to answer without throwing.
\<close>

record 's env =
  path_join :: "string \<Rightarrow> string \<Rightarrow> string"
  path_sep :: string
  process_cwd :: string
  existsSync :: "string \<Rightarrow> bool"
  isDirectory :: "string \<Rightarrow> bool"
  readdirSync :: "string \<Rightarrow> string list"
  require :: "string \<Rightarrow> thrown + val list"
  classes :: "string \<Rightarrow> 's class_decl"
  fn_code :: "string \<Rightarrow> val list \<Rightarrow> string option"

record options =
  cwd :: string
  verbose :: bool
  extensions :: "string list"
  withNamespace :: bool

text \<open>The argument of the constructor: every key may be missing.\<close>

record overlay =
  o_cwd :: "string option"
  o_verbose :: "bool option"
  o_extensions :: "string list option"
  o_withNamespace :: "bool option"

record loader =
  options :: options
  extraArguments :: "val list"
  files :: "string list"

text \<open>
  Everything the loader can change: itself, what the logger has received, the
  \<^verbatim>\<open>connection\<close> listeners registered on servers (each is the server it was registered
  on and the array \<^verbatim>\<open>fns\<close> its closure captured), the instances created with \<^verbatim>\<open>new\<close>
  (class and state, the address is the position), and the calls made to handlers
  (callee and arguments).
\<close>

record 's world =
  ldr :: loader
  logged :: "(level \<times> string) list"
  listeners :: "(val \<times> val list) list"
  heap :: "(string \<times> 's) list"
  calls :: "(val \<times> val list) list"

section \<open>The constructor and the log helper\<close>

text \<open>
  The constructor spreads its argument over the defaults, so a key that is present wins.
  The option \<^verbatim>\<open>cwd\<close> is taken to be a string, and the option \<^verbatim>\<open>logger\<close> is not a field:
  whatever logger is configured, \<open>logged\<close> lists the calls it receives, as the level and
  the message.
\<close>

definition Loader :: "'s env \<Rightarrow> overlay \<Rightarrow> loader" where
  "Loader E ov =
     \<lparr>options =
        \<lparr>cwd = (case o_cwd ov of None \<Rightarrow> process_cwd E | Some c \<Rightarrow> c),
         verbose = (case o_verbose ov of None \<Rightarrow> False | Some v \<Rightarrow> v),
         extensions = (case o_extensions ov of None \<Rightarrow> [''js'', ''mjs''] | Some x \<Rightarrow> x),
         withNamespace = (case o_withNamespace ov of None \<Rightarrow> True | Some n \<Rightarrow> n)\<rparr>,
      extraArguments = [],
      files = []\<rparr>"

definition new_world :: "loader \<Rightarrow> 's world" where
  "new_world l = \<lparr>ldr = l, logged = [], listeners = [], heap = [], calls = []\<rparr>"

text \<open>The method \<^verbatim>\<open>log\<close>: nothing reaches the logger unless \<^verbatim>\<open>verbose\<close> is set.\<close>

definition log_msg :: "string \<Rightarrow> level \<Rightarrow> 's world \<Rightarrow> 's world" where
  "log_msg message type w =
     (if verbose (options (ldr w)) then w\<lparr>logged := logged w @ [(type, message)]\<rparr> else w)"

section \<open>Scanning a directory: \<^verbatim>\<open>when\<close>\<close>

text \<open>
  \<^verbatim>\<open>/[^.]+$/.exec(filename)\<close>: the start positions are tried from the left, and the
  pattern matches at a position when what follows is not empty and has no dot up to the
  end of the name. \<open>None\<close> is the \<^verbatim>\<open>null\<close> of a failed match.
\<close>

fun regex_exec :: "string \<Rightarrow> string option" where
  "regex_exec [] = None"
| "regex_exec (c # cs) =
     (if list_all (\<lambda>x. x \<noteq> CHR ''.'') (c # cs) then Some (c # cs) else regex_exec cs)"

definition push_file :: "string \<Rightarrow> 's world \<Rightarrow> 's world" where
  "push_file p w = w\<lparr>ldr := (ldr w)\<lparr>files := files (ldr w) @ [p]\<rparr>\<rparr>"

text \<open>
  The body of the \<^verbatim>\<open>for ... of fs.readdirSync(location)\<close> loop. Destructuring the
  \<^verbatim>\<open>null\<close> of a failed match throws a TypeError, which leaves the loop with the files
  pushed so far still in the list.
\<close>

fun scan_loop :: "'s env \<Rightarrow> string \<Rightarrow> string list \<Rightarrow> 's world \<Rightarrow> completion \<times> 's world" where
  "scan_loop E location [] w = (Returned, w)"
| "scan_loop E location (filename # rest) w =
     (case regex_exec filename of
        None \<Rightarrow> (Thrown (TypeError ''object null is not iterable''), w)
      | Some extension \<Rightarrow>
          if extension \<notin> set (extensions (options (ldr w)))
          then scan_loop E location rest (log_msg (''Ignoring extension: '' @ extension) LInfo w)
          else if take 1 filename = ''.''
          then scan_loop E location rest (log_msg (''Ignoring hidden entity: '' @ filename) LInfo w)
          else scan_loop E location rest (push_file (path_join E location filename) w))"

definition when_dir :: "'s env \<Rightarrow> string \<Rightarrow> 's world \<Rightarrow> completion \<times> 's world" where
  "when_dir E dirname w =
     (let location = path_join E (cwd (options (ldr w))) dirname in
      if \<not> existsSync E location
      then (Returned, log_msg (''Entity not found '' @ location) LError w)
      else if \<not> isDirectory E location
      then (Returned, log_msg (location @ '' not is an folder'') LError w)
      else scan_loop E location (readdirSync E location) w)"

section \<open>Extra arguments: \<^verbatim>\<open>withExtraArgument\<close>\<close>

text \<open>
  \<^verbatim>\<open>this.extraArguments = this.extraArguments.concat(extraArgument)\<close>, where
  \<^verbatim>\<open>extraArgument\<close> is the array of the call's arguments: its elements are appended as
  they are.
\<close>

definition withExtraArgument :: "val list \<Rightarrow> 's world \<Rightarrow> 's world" where
  "withExtraArgument extraArgument w =
     w\<lparr>ldr := (ldr w)\<lparr>extraArguments := extraArguments (ldr w) @ extraArgument\<rparr>\<rparr>"

text \<open>A sequence of such calls, each given by its arguments.\<close>

fun accumulate :: "val list list \<Rightarrow> 's world \<Rightarrow> 's world" where
  "accumulate [] w = w"
| "accumulate (extraArgument # rest) w = accumulate rest (withExtraArgument extraArgument w)"

section \<open>The name logged for a file: \<^verbatim>\<open>getRelativeTo\<close>\<close>

text \<open>
  \<^verbatim>\<open>s.split(sep)\<close> for a string separator: an empty separator splits into single
  characters, any other one cuts at its occurrences found from the left.
\<close>

function split_from :: "string \<Rightarrow> string \<Rightarrow> string \<Rightarrow> string list" where
  "split_from sep cur [] = [cur]"
| "split_from sep cur (c # cs) =
     (if sep \<noteq> [] \<and> take (length sep) (c # cs) = sep
      then cur # split_from sep [] (drop (length sep) (c # cs))
      else split_from sep (cur @ [c]) cs)"
  by pat_completeness auto
termination
  by (relation "measure (\<lambda>(sep, cur, s). length s)") auto

definition js_split :: "string \<Rightarrow> string \<Rightarrow> string list" where
  "js_split s sep = (if sep = [] then map (\<lambda>c. [c]) s else split_from sep [] s)"

text \<open>
  The last element of an array of strings as a template or a concatenation prints it:
  \<^verbatim>\<open>undefined\<close> when the array is empty.
\<close>

definition last_or_undefined :: "string list \<Rightarrow> string" where
  "last_or_undefined xs = (if xs = [] then ''undefined'' else last xs)"

definition getRelativeTo :: "string \<Rightarrow> 's world \<Rightarrow> string" where
  "getRelativeTo location w =
     ''.'' @ last_or_undefined (js_split location (cwd (options (ldr w))))"

text \<open>\<^verbatim>\<open>parts[parts.length - 1]\<close> for the \<^verbatim>\<open>parts\<close> of \<open>into\<close>.\<close>

definition loaded_name :: "'s env \<Rightarrow> string \<Rightarrow> 's world \<Rightarrow> string" where
  "loaded_name E file w =
     last_or_undefined (drop 1 (js_split (getRelativeTo file w) (path_sep E)))"

section \<open>Binding: \<^verbatim>\<open>into\<close>\<close>

fun is_function :: "val \<Rightarrow> bool" where
  "is_function (VFun f) = True"
| "is_function (VClass c) = True"
| "is_function (VBound a) = True"
| "is_function v = False"

text \<open>\<^verbatim>\<open>mod.indexOf(i)\<close>; \<open>None\<close> is the \<open>-1\<close> of a value that is not in the array.\<close>

fun indexOf :: "val list \<Rightarrow> val \<Rightarrow> nat option" where
  "indexOf [] v = None"
| "indexOf (x # xs) v = (if x = v then Some 0 else map_option Suc (indexOf xs v))"

text \<open>
  The block guarded by \<^verbatim>\<open>/^\s*class\s+/.test(i.toString())\<close>. The array \<^verbatim>\<open>mod\<close> is called
  \<open>exports\<close> here. The element at \<^verbatim>\<open>mod.indexOf(i)\<close> is \<open>i\<close> itself, so that is the class
  instantiated; the instance takes the next free address.
\<close>

definition class_block ::
  "'s env \<Rightarrow> val \<Rightarrow> val list \<Rightarrow> 's world \<Rightarrow> completion \<times> val list \<times> 's world" where
  "class_block E i exports w =
     (case i of
        VClass c \<Rightarrow>
          (case indexOf exports i of
             None \<Rightarrow> (Thrown (TypeError ''mod[mod.indexOf(...)] is not a constructor''), exports, w)
           | Some j \<Rightarrow>
               (case construct (classes E c) of
                  Inl message \<Rightarrow> (Thrown (UserThrown message), exports, w)
                | Inr st \<Rightarrow>
                    (let a = length (heap w); w1 = w\<lparr>heap := heap w @ [(c, st)]\<rparr> in
                     case connection (classes E c) of
                       Method m \<Rightarrow> (Returned, exports[j := VBound a], w1)
                     | NotCallable \<Rightarrow>
                         (Thrown (TypeError ''instance.connection.bind is not a function''),
                          exports, w1)
                     | Absent \<Rightarrow> (Returned, exports, log_msg ''cannot load route'' LError w1))))
      | _ \<Rightarrow> (Returned, exports, w))"

text \<open>One turn of \<^verbatim>\<open>for (const i of mod)\<close>; \<open>name\<close> is \<^verbatim>\<open>parts[parts.length - 1]\<close>.\<close>

definition export_step ::
  "'s env \<Rightarrow> string \<Rightarrow> val \<Rightarrow> val list \<Rightarrow> val list \<Rightarrow> 's world
     \<Rightarrow> completion \<times> val list \<times> val list \<times> 's world" where
  "export_step E name i exports fns w =
     (if \<not> is_function i then (Thrown (Error ''module requires an function''), exports, fns, w)
      else
        (case class_block E i exports w of
           (Thrown e, exports', w') \<Rightarrow> (Thrown e, exports', fns, w')
         | (Returned, exports', w') \<Rightarrow>
             (Returned, exports', fns @ exports', log_msg (''loaded: '' @ name) LInfo w')))"

lemma length_class_block:
  "class_block E i exports w = (c, exports', w') \<Longrightarrow> length exports' = length exports"
  by (auto simp: class_block_def Let_def split: val.splits option.splits sum.splits member.splits)

lemma length_export_step:
  "export_step E name i exports fns w = (c, exports', fns', w') \<Longrightarrow> length exports' = length exports"
  by (auto simp: export_step_def split: if_splits prod.splits completion.splits
      dest: length_class_block)

text \<open>
  \<^verbatim>\<open>for (const i of mod)\<close>: the array iterator reads the element at position \<open>k\<close> as the
  array is at that moment, and stops when \<open>k\<close> reaches the length.
\<close>

function export_loop ::
  "'s env \<Rightarrow> string \<Rightarrow> nat \<Rightarrow> val list \<Rightarrow> val list \<Rightarrow> 's world \<Rightarrow> completion \<times> val list \<times> 's world" where
  "export_loop E name k exports fns w =
     (if k < length exports
      then (case export_step E name (exports ! k) exports fns w of
              (Returned, exports', fns', w') \<Rightarrow> export_loop E name (Suc k) exports' fns' w'
            | (Thrown e, exports', fns', w') \<Rightarrow> (Thrown e, fns', w'))
      else (Returned, fns, w))"
  by pat_completeness auto
termination
  by (relation "measure (\<lambda>(E, name, k, exports, fns, w). length exports - k)")
     (auto dest: length_export_step [OF sym])

declare export_loop.simps [simp del]

text \<open>
  The \<^verbatim>\<open>catch\<close> block: \<^verbatim>\<open>throw new Error(`Failed to require ${file} because: ${error.message}`)\<close>.
  The template reads \<^verbatim>\<open>error.message\<close> first: on \<^verbatim>\<open>null\<close> or \<^verbatim>\<open>undefined\<close> that read
  throws a TypeError of its own and the \<^verbatim>\<open>Error\<close> is never built; a missing message
  prints as \<^verbatim>\<open>undefined\<close>.
\<close>

definition catch_block :: "string \<Rightarrow> thrown \<Rightarrow> error" where
  "catch_block file t =
     (case t of
        Nullish \<Rightarrow> TypeError ''Cannot read properties of null (reading message)''
      | NoMessage \<Rightarrow> Error (''Failed to require '' @ file @ '' because: undefined'')
      | WithMessage message \<Rightarrow>
          Error (''Failed to require '' @ file @ '' because: '' @ message))"

text \<open>\<^verbatim>\<open>for (const file of this.files)\<close>, with the \<^verbatim>\<open>try\<close> around \<^verbatim>\<open>require\<close>.\<close>

fun file_loop ::
  "'s env \<Rightarrow> string list \<Rightarrow> val list \<Rightarrow> 's world \<Rightarrow> completion \<times> val list \<times> 's world" where
  "file_loop E [] fns w = (Returned, fns, w)"
| "file_loop E (file # rest) fns w =
     (case require E file of
        Inl t \<Rightarrow> (Thrown (catch_block file t), fns, w)
      | Inr exports \<Rightarrow>
          (case export_loop E (loaded_name E file w) 0 exports fns w of
             (Returned, fns', w') \<Rightarrow> file_loop E rest fns' w'
           | (Thrown e, fns', w') \<Rightarrow> (Thrown e, fns', w')))"

text \<open>
  \<open>into\<close> registers its listener after the loops: when a loop throws, the array \<^verbatim>\<open>fns\<close>
  is dropped with the call's frame and the server is not touched.
\<close>

definition into :: "'s env \<Rightarrow> val \<Rightarrow> 's world \<Rightarrow> completion \<times> 's world" where
  "into E server w =
     (case file_loop E (files (ldr w)) [] w of
        (Returned, fns, w') \<Rightarrow> (Returned, w'\<lparr>listeners := listeners w' @ [(server, fns)]\<rparr>)
      | (Thrown e, fns, w') \<Rightarrow> (Thrown e, w'))"

section \<open>Connection events\<close>

text \<open>
  The call \<^verbatim>\<open>fn(server, socket, ...this.extraArguments)\<close>. A plain function and a bound
  method are recorded in \<open>calls\<close> and run; a class is not callable without \<^verbatim>\<open>new\<close> and
  its body never runs. Handlers and constructors are taken not to call back into the
  loader: they change their own instance at most.
\<close>

definition invoke :: "'s env \<Rightarrow> val \<Rightarrow> val list \<Rightarrow> 's world \<Rightarrow> completion \<times> 's world" where
  "invoke E fn args w =
     (case fn of
        VFun f \<Rightarrow>
          (let w' = w\<lparr>calls := calls w @ [(fn, args)]\<rparr> in
           case fn_code E f args of
             None \<Rightarrow> (Returned, w')
           | Some message \<Rightarrow> (Thrown (UserThrown message), w'))
      | VBound a \<Rightarrow>
          (if a < length (heap w)
           then (case connection (classes E (fst (heap w ! a))) of
                   Method m \<Rightarrow>
                     (let r = m (snd (heap w ! a)) args;
                          w' = w\<lparr>calls := calls w @ [(fn, args)],
                                 heap := (heap w)[a := (fst (heap w ! a), fst r)]\<rparr> in
                      case snd r of
                        None \<Rightarrow> (Returned, w')
                      | Some message \<Rightarrow> (Thrown (UserThrown message), w'))
                 | _ \<Rightarrow> (Thrown (TypeError ''fn is not a function''), w))
           else (Thrown (TypeError ''fn is not a function''), w))
      | VClass c \<Rightarrow>
          (Thrown (TypeError (''Class constructor '' @ c @ '' cannot be invoked without new'')), w)
      | _ \<Rightarrow> (Thrown (TypeError ''fn is not a function''), w))"

text \<open>
  The listener \<^verbatim>\<open>socket => { for (const fn of fns) fn(server, socket, ...this.extraArguments) }\<close>:
  \<open>fns\<close> and \<open>server\<close> are what the closure captured, the extra arguments are read from
  the loader at each call.
\<close>

fun listener :: "'s env \<Rightarrow> val \<Rightarrow> val list \<Rightarrow> val \<Rightarrow> 's world \<Rightarrow> completion \<times> 's world" where
  "listener E server [] socket w = (Returned, w)"
| "listener E server (fn # fns) socket w =
     (case invoke E fn (server # socket # extraArguments (ldr w)) w of
        (Returned, w') \<Rightarrow> listener E server fns socket w'
      | (Thrown e, w') \<Rightarrow> (Thrown e, w'))"

text \<open>
  The server emitting \<^verbatim>\<open>connection\<close> with a socket: the listeners registered on that
  server run in registration order, and what one throws ends the emission.
\<close>

fun emit_loop ::
  "'s env \<Rightarrow> val \<Rightarrow> val \<Rightarrow> (val \<times> val list) list \<Rightarrow> 's world \<Rightarrow> completion \<times> 's world" where
  "emit_loop E srv socket [] w = (Returned, w)"
| "emit_loop E srv socket ((server, fns) # ls) w =
     (if server = srv
      then (case listener E server fns socket w of
              (Returned, w') \<Rightarrow> emit_loop E srv socket ls w'
            | (Thrown e, w') \<Rightarrow> (Thrown e, w'))
      else emit_loop E srv socket ls w)"

definition emit_connection :: "'s env \<Rightarrow> val \<Rightarrow> val \<Rightarrow> 's world \<Rightarrow> completion \<times> 's world" where
  "emit_connection E srv socket w = emit_loop E srv socket (listeners w) w"

section \<open>Sequences of operations\<close>

datatype op = When string | WithExtraArgument "val list" | Into val | Connection val val

fun step :: "'s env \<Rightarrow> op \<Rightarrow> 's world \<Rightarrow> completion \<times> 's world" where
  "step E (When dirname) w = when_dir E dirname w"
| "step E (WithExtraArgument xs) w = (Returned, withExtraArgument xs w)"
| "step E (Into server) w = into E server w"
| "step E (Connection server socket) w = emit_connection E server socket w"

text \<open>A script of operations stops at the first one that throws.\<close>

fun run :: "'s env \<Rightarrow> op list \<Rightarrow> 's world \<Rightarrow> completion \<times> 's world" where
  "run E [] w = (Returned, w)"
| "run E (x # xs) w =
     (case step E x w of
        (Returned, w') \<Rightarrow> run E xs w'
      | (Thrown e, w') \<Rightarrow> (Thrown e, w'))"

text \<open>A script run on a loader fresh from the constructor.\<close>

definition fresh_run :: "'s env \<Rightarrow> overlay \<Rightarrow> op list \<Rightarrow> completion \<times> 's world" where
  "fresh_run E ov ops = run E ops (new_world (Loader E ov))"

section \<open>Notions used in the statements\<close>

text \<open>Two changes of a world that the operations do not observe.\<close>

definition set_namespace :: "bool \<Rightarrow> 's world \<Rightarrow> 's world" where
  "set_namespace b w = w\<lparr>ldr := (ldr w)\<lparr>options := (options (ldr w))\<lparr>withNamespace := b\<rparr>\<rparr>\<rparr>"

definition prepend_log :: "(level \<times> string) list \<Rightarrow> 's world \<Rightarrow> 's world" where
  "prepend_log p w = w\<lparr>logged := p @ logged w\<rparr>"

text \<open>The calls made since an earlier world.\<close>

definition calls_since :: "'s world \<Rightarrow> 's world \<Rightarrow> (val \<times> val list) list" where
  "calls_since w w' = drop (length (calls w)) (calls w')"

definition logged_since :: "'s world \<Rightarrow> 's world \<Rightarrow> (level \<times> string) list" where
  "logged_since w w' = drop (length (logged w)) (logged w')"

text \<open>
  The handlers that the listeners registered on a server have captured, in registration
  order and then in the order of each captured array.
\<close>

fun handlers_on :: "val \<Rightarrow> (val \<times> val list) list \<Rightarrow> val list" where
  "handlers_on srv [] = []"
| "handlers_on srv ((server, fns) # ls) =
     (if server = srv then fns @ handlers_on srv ls else handlers_on srv ls)"

text \<open>
  What the scan is meant to keep of a listing: the names whose extension is one of the
  accepted ones and which do not start with a dot.
\<close>

definition accepted :: "string list \<Rightarrow> string \<Rightarrow> bool" where
  "accepted exts filename =
     (case regex_exec filename of
        None \<Rightarrow> False
      | Some extension \<Rightarrow> extension \<in> set exts \<and> take 1 filename \<noteq> ''.'')"

text \<open>
  The exports that \<open>into\<close> takes without throwing: callables, a class only if its
  constructor returns and the instance's \<^verbatim>\<open>connection\<close> member, when there is one, is a
  method.
\<close>

fun bindable :: "'s env \<Rightarrow> val \<Rightarrow> bool" where
  "bindable E (VFun f) = True"
| "bindable E (VBound a) = True"
| "bindable E (VClass c) =
     (case construct (classes E c) of
        Inl message \<Rightarrow> False
      | Inr st \<Rightarrow> (case connection (classes E c) of NotCallable \<Rightarrow> False | _ \<Rightarrow> True))"
| "bindable E v = False"

definition loadable :: "'s env \<Rightarrow> string \<Rightarrow> bool" where
  "loadable E file =
     (case require E file of Inl message \<Rightarrow> False | Inr exports \<Rightarrow> list_all (bindable E) exports)"

text \<open>A plain function: a callable that is not a class and not a bound method.\<close>

fun is_plain :: "val \<Rightarrow> bool" where
  "is_plain (VFun f) = True"
| "is_plain v = False"

section \<open>An example installation\<close>

text \<open>
  A working directory \<^verbatim>\<open>/app\<close> on a POSIX system with a few handler directories. The
  instances of the class \<^verbatim>\<open>Counter\<close> count the connections they have seen; the class
  \<^verbatim>\<open>Bare\<close> has no \<^verbatim>\<open>connection\<close> member. The module \<^verbatim>\<open>t.js\<close> runs \<^verbatim>\<open>throw null\<close>, the
  module \<^verbatim>\<open>s.js\<close> throws a string, and \<^verbatim>\<open>no.js\<close> has a syntax error.
\<close>

definition demo_dirs :: "string list" where
  "demo_dirs = [''/app/two'', ''/app/mix'', ''/app/bare'', ''/app/one'', ''/app/bad'',
     ''/app/scan'', ''/app/dots'', ''/app/nul'', ''/app/str'']"

definition demo_listing :: "string \<Rightarrow> string list" where
  "demo_listing p =
     (if p = ''/app/two'' then [''ab.js'']
      else if p = ''/app/mix'' then [''fc.js'']
      else if p = ''/app/bare'' then [''b.js'']
      else if p = ''/app/one'' then [''c.js'']
      else if p = ''/app/bad'' then [''ok.js'', ''no.js'']
      else if p = ''/app/scan'' then [''a.js'', ''.h.js'', ''n.txt'', ''b.mjs'']
      else if p = ''/app/dots'' then [''a.js'', ''b.'', ''c.js'']
      else if p = ''/app/nul'' then [''t.js'']
      else if p = ''/app/str'' then [''s.js'']
      else [])"

definition demo_require :: "string \<Rightarrow> thrown + val list" where
  "demo_require p =
     (if p = ''/app/two/ab.js'' then Inr [VFun ''a'', VFun ''b'']
      else if p = ''/app/mix/fc.js'' then Inr [VFun ''f'', VClass ''Counter'']
      else if p = ''/app/bare/b.js'' then Inr [VClass ''Bare'']
      else if p = ''/app/one/c.js'' then Inr [VClass ''Counter'']
      else if p = ''/app/bad/ok.js'' then Inr [VFun ''a'']
      else if p = ''/app/nul/t.js'' then Inl Nullish
      else if p = ''/app/str/s.js'' then Inl NoMessage
      else Inl (WithMessage ''Unexpected token''))"

definition demo_classes :: "string \<Rightarrow> nat class_decl" where
  "demo_classes c =
     (if c = ''Counter''
      then \<lparr>construct = Inr 0, connection = Method (\<lambda>n args. (Suc n, None))\<rparr>
      else \<lparr>construct = Inr 0, connection = Absent\<rparr>)"

definition demo_env :: "nat env" where
  "demo_env =
     \<lparr>path_join = (\<lambda>a b. a @ ''/'' @ b),
      path_sep = ''/'',
      process_cwd = ''/app'',
      existsSync = (\<lambda>p. p \<in> set demo_dirs \<or> p = ''/app/x.txt''),
      isDirectory = (\<lambda>p. p \<in> set demo_dirs),
      readdirSync = demo_listing,
      require = demo_require,
      classes = demo_classes,
      fn_code = (\<lambda>f args. None)\<rparr>"

definition no_overlay :: overlay where
  "no_overlay = \<lparr>o_cwd = None, o_verbose = None, o_extensions = None, o_withNamespace = None\<rparr>"

definition verbose_overlay :: overlay where
  "verbose_overlay = no_overlay\<lparr>o_verbose := Some True\<rparr>"

definition quiet_world :: "nat world" where
  "quiet_world = new_world (Loader demo_env no_overlay)"

definition verbose_world :: "nat world" where
  "verbose_world = new_world (Loader demo_env verbose_overlay)"

definition srv0 :: val where
  "srv0 = VObj 0"

definition sock1 :: val where
  "sock1 = VObj 1"

definition sock2 :: val where
  "sock2 = VObj 2"

definition bad_world :: "nat world" where
  "bad_world = snd (when_dir demo_env ''bad'' verbose_world)"

definition two_scanned :: "nat world" where
  "two_scanned = snd (when_dir demo_env ''two'' verbose_world)"

definition two_bound :: "nat world" where
  "two_bound = snd (into demo_env srv0 two_scanned)"

definition two_bound_123 :: "nat world" where
  "two_bound_123 = accumulate [[VNum 1, VNum 2], [VNum 3]] two_bound"

definition two_bound_78 :: "nat world" where
  "two_bound_78 = accumulate [[VNum 7], [VNum 8]] two_bound"

definition two_then_nope :: "nat world" where
  "two_then_nope = snd (when_dir demo_env ''nope'' two_scanned)"

definition mix_bound :: "nat world" where
  "mix_bound = snd (run demo_env [When ''mix'', Into srv0] verbose_world)"

definition one_bound :: "nat world" where
  "one_bound = snd (run demo_env [When ''one'', Into srv0] verbose_world)"

definition bare_scanned :: "nat world" where
  "bare_scanned = snd (when_dir demo_env ''bare'' verbose_world)"

definition bare_quiet :: "nat world" where
  "bare_quiet = snd (when_dir demo_env ''bare'' quiet_world)"

definition nul_scanned :: "nat world" where
  "nul_scanned = snd (when_dir demo_env ''nul'' verbose_world)"

definition str_scanned :: "nat world" where
  "str_scanned = snd (when_dir demo_env ''str'' verbose_world)"

section \<open>The scan\<close>

lemma regex_exec_None: "regex_exec n = None \<longleftrightarrow> n = [] \<or> last n = CHR ''.''"
  by (induction n) (auto simp: list_all_iff)

lemma regex_exec_Some_nodot:
  "regex_exec n = Some e \<Longrightarrow> e \<noteq> [] \<and> list_all (\<lambda>x. x \<noteq> CHR ''.'') e"
proof (induction n)
  case Nil
  then show ?case by simp
next
  case (Cons c cs)
  show ?case
  proof (cases "list_all (\<lambda>x. x \<noteq> CHR ''.'') (c # cs)")
    case True
    then have "regex_exec (c # cs) = Some (c # cs)"
      by (simp only: regex_exec.simps if_True)
    with Cons.prems have "e = c # cs" by simp
    with True show ?thesis by simp
  next
    case False
    then have "regex_exec (c # cs) = regex_exec cs"
      by (simp only: regex_exec.simps if_False)
    with Cons.prems have "regex_exec cs = Some e" by simp
    then show ?thesis by (rule Cons.IH)
  qed
qed

lemma regex_exec_nodot:
  "e \<noteq> [] \<Longrightarrow> list_all (\<lambda>x. x \<noteq> CHR ''.'') e \<Longrightarrow> regex_exec e = Some e"
  by (cases e) simp_all

lemma regex_exec_after_last_dot:
  assumes "e \<noteq> []" and "list_all (\<lambda>x. x \<noteq> CHR ''.'') e"
  shows "regex_exec (n @ CHR ''.'' # e) = Some e"
proof (induction n)
  case Nil
  have "regex_exec (CHR ''.'' # e) = regex_exec e" by simp
  with regex_exec_nodot [OF assms] show ?case by simp
next
  case (Cons c n)
  have "\<not> list_all (\<lambda>x. x \<noteq> CHR ''.'') (c # n @ CHR ''.'' # e)"
    by (simp add: list_all_iff)
  then have "regex_exec (c # n @ CHR ''.'' # e) = regex_exec (n @ CHR ''.'' # e)"
    by (simp only: regex_exec.simps if_False)
  with Cons show ?case by simp
qed

lemma scan_loop_throws:
  "filename \<in> set listing \<Longrightarrow> regex_exec filename = None \<Longrightarrow>
   \<exists>m. fst (scan_loop E location listing w) = Thrown (TypeError m)"
  by (induction listing arbitrary: w) (auto split: option.splits)

subsection \<open>The namespace flag is not read\<close>
lemma ns_log_msg: "log_msg m t (set_namespace b w) = set_namespace b (log_msg m t w)"
  by (simp add: log_msg_def set_namespace_def)

lemma ns_push_file: "push_file p (set_namespace b w) = set_namespace b (push_file p w)"
  by (simp add: push_file_def set_namespace_def)

lemma ns_reads [simp]:
  "extensions (options (ldr (set_namespace b w))) = extensions (options (ldr w))"
  "cwd (options (ldr (set_namespace b w))) = cwd (options (ldr w))"
  "verbose (options (ldr (set_namespace b w))) = verbose (options (ldr w))"
  "files (ldr (set_namespace b w)) = files (ldr w)"
  "extraArguments (ldr (set_namespace b w)) = extraArguments (ldr w)"
  "heap (set_namespace b w) = heap w"
  "listeners (set_namespace b w) = listeners w"
  "calls (set_namespace b w) = calls w"
  "logged (set_namespace b w) = logged w"
  by (simp_all add: set_namespace_def)

lemma ns_scan_loop:
  "scan_loop E location listing (set_namespace b w) = apsnd (set_namespace b) (scan_loop E location listing w)"
  by (induction listing arbitrary: w) (simp_all add: ns_log_msg ns_push_file split: option.splits)

lemma ns_when_dir: "when_dir E d (set_namespace b w) = apsnd (set_namespace b) (when_dir E d w)"
  by (simp add: when_dir_def Let_def ns_log_msg ns_scan_loop)

lemma ns_withExtraArgument:
  "withExtraArgument xs (set_namespace b w) = set_namespace b (withExtraArgument xs w)"
  by (simp add: withExtraArgument_def set_namespace_def)

lemma ns_heap_update: "(set_namespace b w)\<lparr>heap := h\<rparr> = set_namespace b (w\<lparr>heap := h\<rparr>)"
  by (simp add: set_namespace_def)

lemma ns_class_block:
  "class_block E i exports (set_namespace b w) = apsnd (apsnd (set_namespace b)) (class_block E i exports w)"
  by (simp add: class_block_def Let_def ns_log_msg ns_heap_update
      split: val.splits option.splits sum.splits member.splits)

lemma ns_export_step:
  "export_step E name i exports fns (set_namespace b w) =
   apsnd (apsnd (apsnd (set_namespace b))) (export_step E name i exports fns w)"
  by (simp add: export_step_def ns_class_block ns_log_msg split: prod.splits completion.splits)

lemma export_loop_done:
  "\<not> k < length exports \<Longrightarrow> export_loop E name k exports fns w = (Returned, fns, w)"
  by (subst export_loop.simps) simp

lemma export_loop_next:
  "k < length exports \<Longrightarrow>
   export_step E name (exports ! k) exports fns w = (Returned, exports', fns', w') \<Longrightarrow>
   export_loop E name k exports fns w = export_loop E name (Suc k) exports' fns' w'"
  by (subst export_loop.simps) simp

lemma export_loop_thrown:
  "k < length exports \<Longrightarrow>
   export_step E name (exports ! k) exports fns w = (Thrown e, exports', fns', w') \<Longrightarrow>
   export_loop E name k exports fns w = (Thrown e, fns', w')"
  by (subst export_loop.simps) simp

lemma ns_export_loop:
  "export_loop E name k exports fns (set_namespace b w) =
   apsnd (apsnd (set_namespace b)) (export_loop E name k exports fns w)"
proof (induction E name k exports fns w rule: export_loop.induct)
  case (1 E name k exports fns w)
  show ?case
  proof (cases "k < length exports")
    case False
    then show ?thesis by (simp add: export_loop_done)
  next
    case True
    obtain c ex' fns' w' where s: "export_step E name (exports ! k) exports fns w = (c, ex', fns', w')"
      by (cases "export_step E name (exports ! k) exports fns w") auto
    then have s': "export_step E name (exports ! k) exports fns (set_namespace b w) = (c, ex', fns', set_namespace b w')"
      by (simp add: ns_export_step)
    show ?thesis
    proof (cases c)
      case Returned
      have "export_loop E name (Suc k) ex' fns' (set_namespace b w') =
            apsnd (apsnd (set_namespace b)) (export_loop E name (Suc k) ex' fns' w')"
        using 1 [OF True s [symmetric] Returned refl refl] .
      with True s s' Returned show ?thesis
        by (simp add: export_loop_next)
    next
      case (Thrown e)
      with True s s' show ?thesis
        by (simp add: export_loop_thrown)
    qed
  qed
qed

lemma ns_loaded_name: "loaded_name E file (set_namespace b w) = loaded_name E file w"
  by (simp add: loaded_name_def getRelativeTo_def)

lemma ns_file_loop:
  "file_loop E fs fns (set_namespace b w) = apsnd (apsnd (set_namespace b)) (file_loop E fs fns w)"
proof (induction fs arbitrary: fns w)
  case Nil
  then show ?case by simp
next
  case (Cons f fs)
  show ?case
    by (cases "require E f")
       (auto simp: ns_export_loop ns_loaded_name Cons split: prod.splits completion.splits)
qed

lemma ns_listeners_update:
  "(set_namespace b w)\<lparr>listeners := l\<rparr> = set_namespace b (w\<lparr>listeners := l\<rparr>)"
  by (simp add: set_namespace_def)

lemma ns_into: "into E srv (set_namespace b w) = apsnd (set_namespace b) (into E srv w)"
  by (simp add: into_def ns_file_loop ns_listeners_update split: prod.splits completion.splits)

lemma ns_invoke: "invoke E fn args (set_namespace b w) = apsnd (set_namespace b) (invoke E fn args w)"
  by (simp add: invoke_def Let_def set_namespace_def
      split: val.splits option.splits member.splits)

lemma ns_listener:
  "listener E server fns socket (set_namespace b w) = apsnd (set_namespace b) (listener E server fns socket w)"
  by (induction fns arbitrary: w) (auto simp: ns_invoke split: prod.splits completion.splits)

lemma ns_emit_loop:
  "emit_loop E srv socket ls (set_namespace b w) = apsnd (set_namespace b) (emit_loop E srv socket ls w)"
  by (induction ls arbitrary: w) (auto simp: ns_listener split: prod.splits completion.splits)

lemma ns_emit: "emit_connection E srv socket (set_namespace b w) = apsnd (set_namespace b) (emit_connection E srv socket w)"
  by (simp add: emit_connection_def ns_emit_loop)

lemma ns_step: "step E x (set_namespace b w) = apsnd (set_namespace b) (step E x w)"
  by (cases x) (simp_all add: ns_when_dir ns_withExtraArgument ns_into ns_emit)

lemma ns_run: "run E xs (set_namespace b w) = apsnd (set_namespace b) (run E xs w)"
  by (induction xs arbitrary: w) (auto simp: ns_step split: prod.splits completion.splits)

lemma Loader_namespace:
  "new_world (Loader E (ov\<lparr>o_withNamespace := x\<rparr>)) =
   set_namespace (case x of None \<Rightarrow> True | Some n \<Rightarrow> n) (new_world (Loader E ov))"
  by (simp add: new_world_def Loader_def set_namespace_def)

text \<open>
  C8. Two loaders are constructed from arguments that differ only in \<^verbatim>\<open>withNamespace\<close>.
  Whatever script of scans, extra arguments, bindings and connection events is run, both
  runs complete alike and end with the same file list, extra arguments, log, listeners,
  instances and handler calls.
\<close>

theorem namespace_flag_not_consumed:
  "fst (fresh_run E (ov\<lparr>o_withNamespace := x\<rparr>) ops) = fst (fresh_run E (ov\<lparr>o_withNamespace := y\<rparr>) ops)
   \<and> files (ldr (snd (fresh_run E (ov\<lparr>o_withNamespace := x\<rparr>) ops)))
       = files (ldr (snd (fresh_run E (ov\<lparr>o_withNamespace := y\<rparr>) ops)))
   \<and> extraArguments (ldr (snd (fresh_run E (ov\<lparr>o_withNamespace := x\<rparr>) ops)))
       = extraArguments (ldr (snd (fresh_run E (ov\<lparr>o_withNamespace := y\<rparr>) ops)))
   \<and> logged (snd (fresh_run E (ov\<lparr>o_withNamespace := x\<rparr>) ops))
       = logged (snd (fresh_run E (ov\<lparr>o_withNamespace := y\<rparr>) ops))
   \<and> listeners (snd (fresh_run E (ov\<lparr>o_withNamespace := x\<rparr>) ops))
       = listeners (snd (fresh_run E (ov\<lparr>o_withNamespace := y\<rparr>) ops))
   \<and> heap (snd (fresh_run E (ov\<lparr>o_withNamespace := x\<rparr>) ops))
       = heap (snd (fresh_run E (ov\<lparr>o_withNamespace := y\<rparr>) ops))
   \<and> calls (snd (fresh_run E (ov\<lparr>o_withNamespace := x\<rparr>) ops))
       = calls (snd (fresh_run E (ov\<lparr>o_withNamespace := y\<rparr>) ops))"
  by (simp add: fresh_run_def Loader_namespace ns_run)

text \<open>
  C10. When the scanned location is a directory with an entry whose name ends with a dot,
  the scan throws a TypeError: the pattern finds no extension in that name, and the
  failed match is destructured.
\<close>

theorem scan_raises_on_trailing_dot:
  assumes "existsSync E (path_join E (cwd (options (ldr w))) dirname)"
    and "isDirectory E (path_join E (cwd (options (ldr w))) dirname)"
    and "filename \<in> set (readdirSync E (path_join E (cwd (options (ldr w))) dirname))"
    and "filename \<noteq> []" and "last filename = CHR ''.''"
  shows "\<exists>m. fst (when_dir E dirname w) = Thrown (TypeError m)"
proof -
  from assms(5) have "regex_exec filename = None"
    by (simp add: regex_exec_None)
  with assms(3) have "\<exists>m. fst (scan_loop E (path_join E (cwd (options (ldr w))) dirname)
      (readdirSync E (path_join E (cwd (options (ldr w))) dirname)) w) = Thrown (TypeError m)"
    by (rule scan_loop_throws)
  with assms(1,2) show ?thesis
    by (simp add: when_dir_def Let_def)
qed

lemma demo_app [simp]: "cwd (options (ldr quiet_world)) = ''/app''"
  "cwd (options (ldr verbose_world)) = ''/app''"
  by (simp_all add: quiet_world_def verbose_world_def new_world_def Loader_def demo_env_def
      no_overlay_def verbose_overlay_def)

theorem scan_raises_on_trailing_dot_witness:
  "existsSync demo_env ''/app/dots'' \<and> isDirectory demo_env ''/app/dots''
   \<and> ''b.'' \<in> set (readdirSync demo_env ''/app/dots'')
   \<and> (\<exists>m. fst (when_dir demo_env ''dots'' quiet_world) = Thrown (TypeError m))"
  using scan_raises_on_trailing_dot [of demo_env quiet_world "''dots''" "''b.''"]
  by (simp add: demo_env_def demo_dirs_def demo_listing_def)

section \<open>Binding\<close>

subsection \<open>What binding leaves alone\<close>

lemma log_msg_frame [simp]:
  "ldr (log_msg m t w) = ldr w" "listeners (log_msg m t w) = listeners w"
  "calls (log_msg m t w) = calls w" "heap (log_msg m t w) = heap w"
  by (simp_all add: log_msg_def)

lemma class_block_frame:
  assumes "class_block E i exports w = (c, exports', w')"
  shows "ldr w' = ldr w \<and> listeners w' = listeners w \<and> calls w' = calls w"
  using assms
  by (auto simp: class_block_def Let_def split: val.splits option.splits sum.splits member.splits)

lemma export_step_frame:
  assumes "export_step E name i exports fns w = (c, exports', fns', w')"
  shows "ldr w' = ldr w \<and> listeners w' = listeners w \<and> calls w' = calls w"
proof (cases "is_function i")
  case False
  with assms show ?thesis by (simp add: export_step_def)
next
  case True
  obtain c1 ex1 w1 where cb: "class_block E i exports w = (c1, ex1, w1)"
    by (cases "class_block E i exports w") auto
  from class_block_frame [OF cb] True assms cb show ?thesis
    by (cases c1) (auto simp: export_step_def)
qed

lemma export_loop_frame:
  "export_loop E name k exports fns w = (c, fns', w') \<Longrightarrow>
   ldr w' = ldr w \<and> listeners w' = listeners w \<and> calls w' = calls w"
proof (induction E name k exports fns w rule: export_loop.induct)
  case (1 E name k exports fns w)
  show ?case
  proof (cases "k < length exports")
    case False
    with "1.prems" show ?thesis by (simp add: export_loop_done)
  next
    case True
    obtain c1 ex1 fns1 w1 where s: "export_step E name (exports ! k) exports fns w = (c1, ex1, fns1, w1)"
      by (cases "export_step E name (exports ! k) exports fns w") auto
    note fr = export_step_frame [OF s]
    show ?thesis
    proof (cases c1)
      case Returned
      with True s "1.prems" have "export_loop E name (Suc k) ex1 fns1 w1 = (c, fns', w')"
        by (simp add: export_loop_next)
      from "1.IH" [OF True s [symmetric] Returned refl refl this] fr show ?thesis by simp
    next
      case (Thrown e)
      with True s "1.prems" fr show ?thesis by (simp add: export_loop_thrown)
    qed
  qed
qed

lemma file_loop_frame:
  "file_loop E fs fns w = (c, fns', w') \<Longrightarrow>
   ldr w' = ldr w \<and> listeners w' = listeners w \<and> calls w' = calls w"
proof (induction fs arbitrary: fns w)
  case Nil
  then show ?case by simp
next
  case (Cons f fs)
  show ?case
  proof (cases "require E f")
    case (Inl m)
    with Cons.prems show ?thesis by simp
  next
    case (Inr exports)
    obtain c1 fns1 w1 where l: "export_loop E (loaded_name E f w) 0 exports fns w = (c1, fns1, w1)"
      by (cases "export_loop E (loaded_name E f w) 0 exports fns w") auto
    note fr = export_loop_frame [OF l]
    show ?thesis
    proof (cases c1)
      case Returned
      with Inr l Cons.prems have "file_loop E fs fns1 w1 = (c, fns', w')" by simp
      from Cons.IH [OF this] fr show ?thesis by simp
    next
      case (Thrown e)
      with Inr l Cons.prems fr show ?thesis by simp
    qed
  qed
qed

lemma into_frame:
  assumes "into E srv w = (c, w')"
  shows "ldr w' = ldr w" and "calls w' = calls w"
    and "c = Returned \<Longrightarrow> \<exists>fns. listeners w' = listeners w @ [(srv, fns)]"
    and "c \<noteq> Returned \<Longrightarrow> listeners w' = listeners w"
proof -
  obtain c1 fns1 w1 where l: "file_loop E (files (ldr w)) [] w = (c1, fns1, w1)"
    by (cases "file_loop E (files (ldr w)) [] w") auto
  note fr = file_loop_frame [OF l]
  from assms l fr show "ldr w' = ldr w" by (cases c1) (auto simp: into_def)
  from assms l fr show "calls w' = calls w" by (cases c1) (auto simp: into_def)
  from assms l fr show "c = Returned \<Longrightarrow> \<exists>fns. listeners w' = listeners w @ [(srv, fns)]"
    by (cases c1) (auto simp: into_def)
  from assms l fr show "c \<noteq> Returned \<Longrightarrow> listeners w' = listeners w"
    by (cases c1) (auto simp: into_def)
qed

subsection \<open>A module that fails to load\<close>

lemma file_loop_append:
  "file_loop E (xs @ ys) fns w =
     (case file_loop E xs fns w of
        (Returned, fns', w') \<Rightarrow> file_loop E ys fns' w'
      | (Thrown e, fns', w') \<Rightarrow> (Thrown e, fns', w'))"
proof (induction xs arbitrary: fns w)
  case Nil
  then show ?case by simp
next
  case (Cons f xs)
  show ?case
  proof (cases "require E f")
    case (Inl m)
    then show ?thesis by simp
  next
    case (Inr exports)
    obtain c1 fns1 w1 where l: "export_loop E (loaded_name E f w) 0 exports fns w = (c1, fns1, w1)"
      by (cases "export_loop E (loaded_name E f w) 0 exports fns w") auto
    with Inr Cons.IH show ?thesis by (cases c1) simp_all
  qed
qed

lemma file_loop_load_failure:
  "f \<in> set fs \<Longrightarrow> require E f = Inl cause \<Longrightarrow> \<exists>e. fst (file_loop E fs fns w) = Thrown e"
proof (induction fs arbitrary: fns w)
  case Nil
  then show ?case by simp
next
  case (Cons g fs)
  show ?case
  proof (cases "require E g")
    case (Inl m)
    then show ?thesis by simp
  next
    case (Inr exports)
    with Cons.prems have mem: "f \<in> set fs" by auto
    obtain c1 fns1 w1 where l: "export_loop E (loaded_name E g w) 0 exports fns w = (c1, fns1, w1)"
      by (cases "export_loop E (loaded_name E g w) 0 exports fns w") auto
    show ?thesis
    proof (cases c1)
      case Returned
      with Inr l Cons.IH [OF mem Cons.prems(2), of fns1 w1] show ?thesis by simp
    next
      case (Thrown e)
      with Inr l show ?thesis by simp
    qed
  qed
qed

text \<open>
  Whatever a module throws while it loads, binding throws, the server's listeners are
  the ones it had and the loader is unchanged; when the files before that one were
  normalized without a throw, what binding throws is what the \<^verbatim>\<open>catch\<close> block makes of
  what the module threw.
\<close>

lemma load_failure_aborts:
  assumes "f \<in> set (files (ldr w))" and "require E f = Inl t"
  shows "(\<exists>e. fst (into E srv w) = Thrown e)
    \<and> listeners (snd (into E srv w)) = listeners w
    \<and> ldr (snd (into E srv w)) = ldr w
    \<and> (\<forall>pre post. files (ldr w) = pre @ f # post \<and> fst (file_loop E pre [] w) = Returned \<longrightarrow>
          fst (into E srv w) = Thrown (catch_block f t))"
proof -
  obtain c1 fns1 w1 where l: "file_loop E (files (ldr w)) [] w = (c1, fns1, w1)"
    by (cases "file_loop E (files (ldr w)) [] w") auto
  from file_loop_load_failure [OF assms, of "[]" w] l obtain e where c1: "c1 = Thrown e"
    by auto
  with l have i: "into E srv w = (Thrown e, w1)"
    by (simp add: into_def)
  have a: "\<exists>e. fst (into E srv w) = Thrown e"
    using i by simp
  have b: "listeners (snd (into E srv w)) = listeners w"
    using into_frame(4) [OF i] i by simp
  have c: "ldr (snd (into E srv w)) = ldr w"
    using into_frame(1) [OF i] i by simp
  have d: "fst (into E srv w) = Thrown (catch_block f t)"
    if fs: "files (ldr w) = pre @ f # post" and pre: "fst (file_loop E pre [] w) = Returned"
    for pre post
  proof -
    obtain fns2 w2 where p: "file_loop E pre [] w = (Returned, fns2, w2)"
      using pre by (cases "file_loop E pre [] w") auto
    have "file_loop E (pre @ f # post) [] w = (Thrown (catch_block f t), fns2, w2)"
      using p assms(2) by (simp add: file_loop_append)
    with fs show ?thesis by (simp add: into_def)
  qed
  from a b c d show ?thesis by blast
qed

text \<open>When what the module threw carries a message, the error names the file and it.\<close>

lemma load_failure_with_message:
  assumes "files (ldr w) = pre @ f # post" and "fst (file_loop E pre [] w) = Returned"
    and "require E f = Inl (WithMessage cause)"
  shows "fst (into E srv w) =
    Thrown (Error (''Failed to require '' @ f @ '' because: '' @ cause))"
proof -
  from assms(1) have "f \<in> set (files (ldr w))" by simp
  from load_failure_aborts [OF this assms(3), of srv] assms(1,2)
  have "fst (into E srv w) = Thrown (catch_block f (WithMessage cause))"
    by blast
  then show ?thesis by (simp add: catch_block_def)
qed

lemma load_failure_with_message_example:
  "files (ldr bad_world) = [''/app/bad/ok.js'', ''/app/bad/no.js'']
   \<and> require demo_env ''/app/bad/no.js'' = Inl (WithMessage ''Unexpected token'')
   \<and> fst (into demo_env srv0 bad_world) =
       Thrown (Error ''Failed to require /app/bad/no.js because: Unexpected token'')
   \<and> listeners (snd (into demo_env srv0 bad_world)) = []"
  by code_simp

text \<open>
  C3 on a module that runs \<^verbatim>\<open>throw null\<close>, and on one that throws a string: binding
  throws and registers nothing, but for the first the error is the TypeError of reading
  \<^verbatim>\<open>message\<close> on \<^verbatim>\<open>null\<close>, which names neither the file nor the cause, and for the second
  the message names the file and gives \<^verbatim>\<open>undefined\<close> for the cause.
\<close>

theorem load_failure_without_message:
  "files (ldr nul_scanned) = [''/app/nul/t.js'']
   \<and> require demo_env ''/app/nul/t.js'' = Inl Nullish
   \<and> fst (into demo_env srv0 nul_scanned) =
       Thrown (TypeError ''Cannot read properties of null (reading message)'')
   \<and> listeners (snd (into demo_env srv0 nul_scanned)) = []
   \<and> files (ldr str_scanned) = [''/app/str/s.js'']
   \<and> require demo_env ''/app/str/s.js'' = Inl NoMessage
   \<and> fst (into demo_env srv0 str_scanned) =
       Thrown (Error ''Failed to require /app/str/s.js because: undefined'')
   \<and> listeners (snd (into demo_env srv0 str_scanned)) = []"
  by code_simp

subsection \<open>What a connection event does\<close>

lemma invoke_frame:
  assumes "invoke E fn args w = (c, w')"
  shows "ldr w' = ldr w \<and> listeners w' = listeners w \<and> logged w' = logged w
    \<and> (calls w' = calls w \<or> calls w' = calls w @ [(fn, args)])"
  using assms
  by (auto simp: invoke_def Let_def split: val.splits option.splits member.splits if_splits)

lemma listener_frame:
  "listener E server fns socket w = (c, w') \<Longrightarrow>
   ldr w' = ldr w \<and> listeners w' = listeners w \<and> logged w' = logged w
   \<and> (\<exists>new. calls w' = calls w @ new
        \<and> (\<forall>call \<in> set new. fst call \<in> set fns
              \<and> snd call = server # socket # extraArguments (ldr w)))"
proof (induction fns arbitrary: w)
  case Nil
  then show ?case by simp
next
  case (Cons fn fns)
  obtain c1 w1 where i: "invoke E fn (server # socket # extraArguments (ldr w)) w = (c1, w1)"
    by (cases "invoke E fn (server # socket # extraArguments (ldr w)) w") auto
  note fr = invoke_frame [OF i]
  from fr obtain n1 where n1: "calls w1 = calls w @ n1"
    "\<forall>call \<in> set n1. fst call \<in> set (fn # fns) \<and> snd call = server # socket # extraArguments (ldr w)"
    by (cases "calls w1 = calls w") auto
  show ?case
  proof (cases c1)
    case Returned
    with i Cons.prems have "listener E server fns socket w1 = (c, w')" by simp
    from Cons.IH [OF this] fr obtain n2 where n2: "calls w' = calls w1 @ n2"
      "\<forall>call \<in> set n2. fst call \<in> set fns \<and> snd call = server # socket # extraArguments (ldr w)"
      and rest: "ldr w' = ldr w" "listeners w' = listeners w" "logged w' = logged w"
      by auto
    from n1 n2 have "calls w' = calls w @ (n1 @ n2)"
      "\<forall>call \<in> set (n1 @ n2). fst call \<in> set (fn # fns) \<and> snd call = server # socket # extraArguments (ldr w)"
      by auto
    with rest show ?thesis by blast
  next
    case (Thrown e)
    with i Cons.prems have "w' = w1" by simp
    with fr n1 show ?thesis by blast
  qed
qed

lemma emit_loop_frame:
  "emit_loop E srv socket ls w = (c, w') \<Longrightarrow>
   ldr w' = ldr w \<and> listeners w' = listeners w \<and> logged w' = logged w
   \<and> (\<exists>new. calls w' = calls w @ new
        \<and> (\<forall>call \<in> set new. (\<exists>fns. (srv, fns) \<in> set ls \<and> fst call \<in> set fns)
              \<and> snd call = srv # socket # extraArguments (ldr w)))"
proof (induction ls arbitrary: w)
  case Nil
  then show ?case by simp
next
  case (Cons l ls)
  obtain server fns where l: "l = (server, fns)" by (cases l)
  show ?case
  proof (cases "server = srv")
    case False
    with l Cons.prems have "emit_loop E srv socket ls w = (c, w')" by simp
    from Cons.IH [OF this] show ?thesis by fastforce
  next
    case True
    obtain c1 w1 where li: "listener E srv fns socket w = (c1, w1)"
      by (cases "listener E srv fns socket w") auto
    from listener_frame [OF li] obtain n1 where n1: "calls w1 = calls w @ n1"
      "\<forall>call \<in> set n1. fst call \<in> set fns \<and> snd call = srv # socket # extraArguments (ldr w)"
      and r1: "ldr w1 = ldr w" "listeners w1 = listeners w" "logged w1 = logged w"
      by auto
    show ?thesis
    proof (cases c1)
      case Returned
      with True l li Cons.prems have "emit_loop E srv socket ls w1 = (c, w')" by simp
      from Cons.IH [OF this] r1 obtain n2 where n2: "calls w' = calls w1 @ n2"
        "\<forall>call \<in> set n2. (\<exists>fns. (srv, fns) \<in> set ls \<and> fst call \<in> set fns)
              \<and> snd call = srv # socket # extraArguments (ldr w)"
        and r2: "ldr w' = ldr w" "listeners w' = listeners w" "logged w' = logged w"
        by auto
      from n1 n2 True l have "calls w' = calls w @ (n1 @ n2)"
        "\<forall>call \<in> set (n1 @ n2). (\<exists>fns. (srv, fns) \<in> set (l # ls) \<and> fst call \<in> set fns)
              \<and> snd call = srv # socket # extraArguments (ldr w)"
        by auto
      with r2 show ?thesis by blast
    next
      case (Thrown e)
      with True l li Cons.prems have "w' = w1" by simp
      moreover from n1 True l have
        "\<forall>call \<in> set n1. (\<exists>fns. (srv, fns) \<in> set (l # ls) \<and> fst call \<in> set fns)
              \<and> snd call = srv # socket # extraArguments (ldr w)"
        by auto
      ultimately show ?thesis using n1(1) r1 by blast
    qed
  qed
qed

lemma emit_connection_frame:
  assumes "emit_connection E srv socket w = (c, w')"
  shows "ldr w' = ldr w" and "listeners w' = listeners w" and "logged w' = logged w"
    and "take (length (calls w)) (calls w') = calls w"
    and "\<forall>call \<in> set (calls_since w w').
           (\<exists>fns. (srv, fns) \<in> set (listeners w) \<and> fst call \<in> set fns)
           \<and> snd call = srv # socket # extraArguments (ldr w)"
proof -
  from assms have "emit_loop E srv socket (listeners w) w = (c, w')"
    by (simp add: emit_connection_def)
  from emit_loop_frame [OF this] obtain new where n: "calls w' = calls w @ new"
    "\<forall>call \<in> set new. (\<exists>fns. (srv, fns) \<in> set (listeners w) \<and> fst call \<in> set fns)
              \<and> snd call = srv # socket # extraArguments (ldr w)"
    and r: "ldr w' = ldr w" "listeners w' = listeners w" "logged w' = logged w"
    by auto
  from r show "ldr w' = ldr w" "listeners w' = listeners w" "logged w' = logged w" by simp_all
  from n show "take (length (calls w)) (calls w') = calls w" by simp
  from n show "\<forall>call \<in> set (calls_since w w').
           (\<exists>fns. (srv, fns) \<in> set (listeners w) \<and> fst call \<in> set fns)
           \<and> snd call = srv # socket # extraArguments (ldr w)"
    by (simp add: calls_since_def)
qed

lemma accumulate_extraArguments:
  "extraArguments (ldr (accumulate argss w)) = extraArguments (ldr w) @ concat argss"
  by (induction argss arbitrary: w) (simp_all add: withExtraArgument_def)

text \<open>
  C6. The calls of \<^verbatim>\<open>withExtraArgument\<close> append their arguments to the list in call
  order: a fresh loader has none, and after the calls the list is what it was followed by
  the concatenation of the calls' arguments. Every handler call made during a connection
  event has the server, the socket and then that list as its arguments.
\<close>

theorem extra_arguments_accumulate_and_pass:
  "extraArguments (ldr (new_world (Loader E ov))) = []
   \<and> extraArguments (ldr (accumulate argss w)) = extraArguments (ldr w) @ concat argss
   \<and> (\<forall>call \<in> set (calls_since w (snd (emit_connection E srv socket w))).
         snd call = srv # socket # extraArguments (ldr w))"
proof -
  obtain c w' where e: "emit_connection E srv socket w = (c, w')"
    by (cases "emit_connection E srv socket w") auto
  from emit_connection_frame(5) [OF e] e
  have "\<forall>call \<in> set (calls_since w (snd (emit_connection E srv socket w))).
         snd call = srv # socket # extraArguments (ldr w)"
    by simp
  then show ?thesis
    by (simp add: accumulate_extraArguments new_world_def Loader_def)
qed

theorem extra_arguments_accumulate_and_pass_witness:
  "extraArguments (ldr (accumulate [[VNum 1, VNum 2], [VNum 3]] quiet_world)) = [VNum 1, VNum 2, VNum 3]
   \<and> extraArguments (ldr two_bound_123) = [VNum 1, VNum 2, VNum 3]
   \<and> (VFun ''a'', [srv0, sock1, VNum 1, VNum 2, VNum 3])
        \<in> set (calls_since two_bound_123 (snd (emit_connection demo_env srv0 sock1 two_bound_123)))
   \<and> list_all (\<lambda>call. snd call = [srv0, sock1, VNum 1, VNum 2, VNum 3])
        (calls_since two_bound_123 (snd (emit_connection demo_env srv0 sock1 two_bound_123)))"
proof -
  have h1: "extraArguments (ldr two_bound_123) = [VNum 1, VNum 2, VNum 3]" by code_simp
  have h2: "(VFun ''a'', [srv0, sock1, VNum 1, VNum 2, VNum 3])
        \<in> set (calls_since two_bound_123 (snd (emit_connection demo_env srv0 sock1 two_bound_123)))"
    by code_simp
  note t1 = extra_arguments_accumulate_and_pass
    [of demo_env no_overlay "[[VNum 1, VNum 2], [VNum 3]]" quiet_world srv0 sock1]
  note t2 = extra_arguments_accumulate_and_pass
    [of demo_env no_overlay "[]" two_bound_123 srv0 sock1]
  from t1 [THEN conjunct1] t1 [THEN conjunct2, THEN conjunct1]
  have "extraArguments (ldr (accumulate [[VNum 1, VNum 2], [VNum 3]] quiet_world))
     = [VNum 1, VNum 2, VNum 3]"
    by (simp add: quiet_world_def)
  moreover from t2 [THEN conjunct2, THEN conjunct2] h1
  have "list_all (\<lambda>call. snd call = [srv0, sock1, VNum 1, VNum 2, VNum 3])
        (calls_since two_bound_123 (snd (emit_connection demo_env srv0 sock1 two_bound_123)))"
    by (simp add: list_all_iff)
  ultimately show ?thesis using h1 h2 by simp
qed

subsection \<open>The calls of a connection event, in order\<close>

lemma handlers_on_append:
  "handlers_on srv (xs @ ys) = handlers_on srv xs @ handlers_on srv ys"
  by (induction xs) auto

lemma accumulate_frame:
  "listeners (accumulate argss w) = listeners w \<and> calls (accumulate argss w) = calls w
   \<and> heap (accumulate argss w) = heap w \<and> logged (accumulate argss w) = logged w"
  by (induction argss arbitrary: w) (simp_all add: withExtraArgument_def)

lemma invoke_returned:
  assumes "invoke E fn args w = (Returned, w')"
  shows "calls w' = calls w @ [(fn, args)]"
  using assms
  by (auto simp: invoke_def Let_def split: val.splits option.splits member.splits if_splits)

lemma listener_calls:
  "listener E server fns socket w = (c, w') \<Longrightarrow>
   (\<exists>n. calls w' =
      calls w @ take n (map (\<lambda>fn. (fn, server # socket # extraArguments (ldr w))) fns))
   \<and> (c = Returned \<longrightarrow> calls w' =
      calls w @ map (\<lambda>fn. (fn, server # socket # extraArguments (ldr w))) fns)"
proof (induction fns arbitrary: w)
  case Nil
  then show ?case by simp
next
  case (Cons fn fns)
  let ?args = "server # socket # extraArguments (ldr w)"
  let ?f = "\<lambda>fn. (fn, ?args)"
  obtain c1 w1 where i: "invoke E fn ?args w = (c1, w1)"
    by (cases "invoke E fn ?args w") auto
  note fr = invoke_frame [OF i]
  show ?case
  proof (cases c1)
    case Returned
    with i have c1: "calls w1 = calls w @ [(fn, ?args)]"
      by (simp add: invoke_returned)
    from Returned i Cons.prems have "listener E server fns socket w1 = (c, w')" by simp
    note ih = Cons.IH [OF this]
    from fr have eq: "ldr w1 = ldr w" by simp
    from ih obtain n where
      n: "calls w' = calls w1 @ take n (map ?f fns)"
      and r: "c = Returned \<longrightarrow> calls w' = calls w1 @ map ?f fns"
      unfolding eq by blast
    from n c1 have "calls w' = calls w @ take (Suc n) (map ?f (fn # fns))" by simp
    moreover from r c1 have "c = Returned \<longrightarrow> calls w' = calls w @ map ?f (fn # fns)" by simp
    ultimately show ?thesis by blast
  next
    case (Thrown e)
    with i Cons.prems have w': "w' = w1" and c: "c = Thrown e" by simp_all
    from fr have "calls w1 = calls w @ take 0 (map ?f (fn # fns))
        \<or> calls w1 = calls w @ take (Suc 0) (map ?f (fn # fns))"
      by auto
    then have "\<exists>n. calls w1 = calls w @ take n (map ?f (fn # fns))"
      by blast
    with w' c show ?thesis by simp
  qed
qed

lemma emit_loop_calls:
  "emit_loop E srv socket ls w = (c, w') \<Longrightarrow>
   (\<exists>n. calls w' =
      calls w @ take n (map (\<lambda>fn. (fn, srv # socket # extraArguments (ldr w))) (handlers_on srv ls)))
   \<and> (c = Returned \<longrightarrow> calls w' =
      calls w @ map (\<lambda>fn. (fn, srv # socket # extraArguments (ldr w))) (handlers_on srv ls))"
proof (induction ls arbitrary: w)
  case Nil
  then show ?case by simp
next
  case (Cons l ls)
  let ?f = "\<lambda>fn. (fn, srv # socket # extraArguments (ldr w))"
  obtain server fns where l: "l = (server, fns)" by (cases l)
  show ?case
  proof (cases "server = srv")
    case False
    with l Cons.prems have "emit_loop E srv socket ls w = (c, w')" by simp
    from Cons.IH [OF this] False l show ?thesis by simp
  next
    case True
    obtain c1 w1 where li: "listener E srv fns socket w = (c1, w1)"
      by (cases "listener E srv fns socket w") auto
    from listener_frame [OF li] have fr: "ldr w1 = ldr w" by simp
    from listener_calls [OF li] obtain n1 where
      n1: "calls w1 = calls w @ take n1 (map ?f fns)"
      and r1: "c1 = Returned \<longrightarrow> calls w1 = calls w @ map ?f fns"
      by blast
    show ?thesis
    proof (cases c1)
      case Returned
      with True l li Cons.prems have "emit_loop E srv socket ls w1 = (c, w')" by simp
      note ih = Cons.IH [OF this]
      from ih obtain n2 where
        n2: "calls w' = calls w1 @ take n2 (map ?f (handlers_on srv ls))"
        and r2: "c = Returned \<longrightarrow> calls w' = calls w1 @ map ?f (handlers_on srv ls)"
        unfolding fr by blast
      from r1 Returned have c1: "calls w1 = calls w @ map ?f fns" by simp
      from n2 c1 True l
      have "calls w' = calls w @ take (length fns + n2) (map ?f (handlers_on srv (l # ls)))"
        by simp
      moreover from r2 c1 True l
      have "c = Returned \<longrightarrow> calls w' = calls w @ map ?f (handlers_on srv (l # ls))"
        by simp
      ultimately show ?thesis by blast
    next
      case (Thrown e)
      with True l li Cons.prems have w': "w' = w1" and c: "c = Thrown e" by simp_all
      have "take n1 (map ?f fns) = take (min n1 (length fns)) (map ?f (handlers_on srv (l # ls)))"
        using True l by (simp add: min_def)
      with n1 w' have "calls w' =
          calls w @ take (min n1 (length fns)) (map ?f (handlers_on srv (l # ls)))"
        by simp
      with c show ?thesis by blast
    qed
  qed
qed

lemma emit_connection_calls:
  "(\<exists>n. calls_since w (snd (emit_connection E srv socket w)) =
      take n (map (\<lambda>fn. (fn, srv # socket # extraArguments (ldr w))) (handlers_on srv (listeners w))))
   \<and> (fst (emit_connection E srv socket w) = Returned \<longrightarrow>
        calls_since w (snd (emit_connection E srv socket w)) =
          map (\<lambda>fn. (fn, srv # socket # extraArguments (ldr w))) (handlers_on srv (listeners w)))"
proof -
  obtain c w' where e: "emit_loop E srv socket (listeners w) w = (c, w')"
    by (cases "emit_loop E srv socket (listeners w) w") auto
  from emit_loop_calls [OF e] e show ?thesis
    by (auto simp: emit_connection_def calls_since_def)
qed

text \<open>
  C9. A binding returns, then more extra arguments are accumulated, then a connection
  event is fired on the server. The binding has registered one more listener, with the
  handler list it built, and the later accumulation leaves the listeners as they are.
  The event calls the handlers captured on that server, those of the binding last, in
  order and up to the first that throws, and all of them when the event returns; each
  call has the server, the socket and then the extra arguments as they are at the event,
  the later ones included.
\<close>

theorem extra_arguments_read_at_event_time:
  assumes "into E srv w = (Returned, w1)"
  shows "\<exists>fns. listeners w1 = listeners w @ [(srv, fns)]
    \<and> listeners (accumulate argss w1) = listeners w1
    \<and> (\<exists>n. calls_since (accumulate argss w1)
               (snd (emit_connection E srv socket (accumulate argss w1))) =
             take n (map (\<lambda>fn. (fn, srv # socket # (extraArguments (ldr w) @ concat argss)))
                       (handlers_on srv (listeners w) @ fns)))
    \<and> (fst (emit_connection E srv socket (accumulate argss w1)) = Returned \<longrightarrow>
          calls_since (accumulate argss w1)
               (snd (emit_connection E srv socket (accumulate argss w1))) =
             map (\<lambda>fn. (fn, srv # socket # (extraArguments (ldr w) @ concat argss)))
                       (handlers_on srv (listeners w) @ fns))"
proof -
  let ?w2 = "accumulate argss w1"
  from into_frame(3) [OF assms] obtain fns where f: "listeners w1 = listeners w @ [(srv, fns)]"
    by blast
  have l: "listeners ?w2 = listeners w1"
    by (simp add: accumulate_frame)
  have x: "extraArguments (ldr ?w2) = extraArguments (ldr w) @ concat argss"
    using into_frame(1) [OF assms] by (simp add: accumulate_extraArguments)
  from f l have h: "handlers_on srv (listeners ?w2) = handlers_on srv (listeners w) @ fns"
    by (simp add: handlers_on_append)
  from emit_connection_calls [of ?w2 E srv socket] f l
  show ?thesis
    unfolding x h by blast
qed

theorem extra_arguments_read_at_event_time_witness:
  "into demo_env srv0 two_scanned = (Returned, two_bound)
   \<and> listeners two_scanned = []
   \<and> extraArguments (ldr two_scanned) = []
   \<and> listeners two_bound = [(srv0, [VFun ''a'', VFun ''b'', VFun ''a'', VFun ''b''])]
   \<and> fst (emit_connection demo_env srv0 sock1 two_bound_78) = Returned
   \<and> calls_since two_bound_78 (snd (emit_connection demo_env srv0 sock1 two_bound_78)) =
       [(VFun ''a'', [srv0, sock1, VNum 7, VNum 8]), (VFun ''b'', [srv0, sock1, VNum 7, VNum 8]),
        (VFun ''a'', [srv0, sock1, VNum 7, VNum 8]), (VFun ''b'', [srv0, sock1, VNum 7, VNum 8])]"
proof -
  have h1: "into demo_env srv0 two_scanned = (Returned, two_bound)" by code_simp
  have h2: "listeners two_scanned = []" by code_simp
  have h3: "extraArguments (ldr two_scanned) = []" by code_simp
  have h4: "listeners two_bound = [(srv0, [VFun ''a'', VFun ''b'', VFun ''a'', VFun ''b''])]"
    by code_simp
  have h5: "fst (emit_connection demo_env srv0 sock1 two_bound_78) = Returned" by code_simp
  from extra_arguments_read_at_event_time [OF h1, of "[[VNum 7], [VNum 8]]" sock1]
  obtain fns where f: "listeners two_bound = listeners two_scanned @ [(srv0, fns)]"
    and r: "fst (emit_connection demo_env srv0 sock1 (accumulate [[VNum 7], [VNum 8]] two_bound)) = Returned \<longrightarrow>
          calls_since (accumulate [[VNum 7], [VNum 8]] two_bound)
               (snd (emit_connection demo_env srv0 sock1 (accumulate [[VNum 7], [VNum 8]] two_bound))) =
             map (\<lambda>fn. (fn, srv0 # sock1 # (extraArguments (ldr two_scanned) @ concat [[VNum 7], [VNum 8]])))
                       (handlers_on srv0 (listeners two_scanned) @ fns)"
    by blast
  from f h2 h4 have fns: "fns = [VFun ''a'', VFun ''b'', VFun ''a'', VFun ''b'']" by simp
  from r h5 have "calls_since two_bound_78 (snd (emit_connection demo_env srv0 sock1 two_bound_78)) =
             map (\<lambda>fn. (fn, srv0 # sock1 # (extraArguments (ldr two_scanned) @ concat [[VNum 7], [VNum 8]])))
                       (handlers_on srv0 (listeners two_scanned) @ fns)"
    by (simp add: two_bound_78_def)
  with h2 h3 fns have "calls_since two_bound_78 (snd (emit_connection demo_env srv0 sock1 two_bound_78)) =
       [(VFun ''a'', [srv0, sock1, VNum 7, VNum 8]), (VFun ''b'', [srv0, sock1, VNum 7, VNum 8]),
        (VFun ''a'', [srv0, sock1, VNum 7, VNum 8]), (VFun ''b'', [srv0, sock1, VNum 7, VNum 8])]"
    by simp
  with h1 h2 h3 h4 h5 show ?thesis by simp
qed

subsection \<open>Binding does not read the log\<close>

lemma pl_reads [simp]:
  "ldr (prepend_log p w) = ldr w" "heap (prepend_log p w) = heap w"
  "listeners (prepend_log p w) = listeners w" "calls (prepend_log p w) = calls w"
  "logged (prepend_log p w) = p @ logged w"
  by (simp_all add: prepend_log_def)

lemma pl_log_msg: "log_msg m t (prepend_log p w) = prepend_log p (log_msg m t w)"
  by (simp add: log_msg_def prepend_log_def)

lemma pl_heap_update: "(prepend_log p w)\<lparr>heap := h\<rparr> = prepend_log p (w\<lparr>heap := h\<rparr>)"
  by (simp add: prepend_log_def)

lemma pl_listeners_update: "(prepend_log p w)\<lparr>listeners := l\<rparr> = prepend_log p (w\<lparr>listeners := l\<rparr>)"
  by (simp add: prepend_log_def)

lemma pl_class_block:
  "class_block E i exports (prepend_log p w) = apsnd (apsnd (prepend_log p)) (class_block E i exports w)"
  by (simp add: class_block_def Let_def pl_log_msg pl_heap_update
      split: val.splits option.splits sum.splits member.splits)

lemma pl_export_step:
  "export_step E name i exports fns (prepend_log p w) =
   apsnd (apsnd (apsnd (prepend_log p))) (export_step E name i exports fns w)"
  by (simp add: export_step_def pl_class_block pl_log_msg split: prod.splits completion.splits)

lemma pl_export_loop:
  "export_loop E name k exports fns (prepend_log p w) =
   apsnd (apsnd (prepend_log p)) (export_loop E name k exports fns w)"
proof (induction E name k exports fns w rule: export_loop.induct)
  case (1 E name k exports fns w)
  show ?case
  proof (cases "k < length exports")
    case False
    then show ?thesis by (simp add: export_loop_done)
  next
    case True
    obtain c ex' fns' w' where s: "export_step E name (exports ! k) exports fns w = (c, ex', fns', w')"
      by (cases "export_step E name (exports ! k) exports fns w") auto
    then have s': "export_step E name (exports ! k) exports fns (prepend_log p w) = (c, ex', fns', prepend_log p w')"
      by (simp add: pl_export_step)
    show ?thesis
    proof (cases c)
      case Returned
      have "export_loop E name (Suc k) ex' fns' (prepend_log p w') =
            apsnd (apsnd (prepend_log p)) (export_loop E name (Suc k) ex' fns' w')"
        using 1 [OF True s [symmetric] Returned refl refl] .
      with True s s' Returned show ?thesis
        by (simp add: export_loop_next)
    next
      case (Thrown e)
      with True s s' show ?thesis
        by (simp add: export_loop_thrown)
    qed
  qed
qed

lemma pl_loaded_name: "loaded_name E file (prepend_log p w) = loaded_name E file w"
  by (simp add: loaded_name_def getRelativeTo_def)

lemma pl_file_loop:
  "file_loop E fs fns (prepend_log p w) = apsnd (apsnd (prepend_log p)) (file_loop E fs fns w)"
proof (induction fs arbitrary: fns w)
  case Nil
  then show ?case by simp
next
  case (Cons f fs)
  show ?case
    by (cases "require E f")
       (auto simp: pl_export_loop pl_loaded_name Cons split: prod.splits completion.splits)
qed

lemma pl_into: "into E srv (prepend_log p w) = apsnd (prepend_log p) (into E srv w)"
  by (simp add: into_def pl_file_loop pl_listeners_update split: prod.splits completion.splits)

lemma into_ignores_log:
  "fst (into E srv (w\<lparr>logged := l\<rparr>)) = fst (into E srv w)
   \<and> listeners (snd (into E srv (w\<lparr>logged := l\<rparr>))) = listeners (snd (into E srv w))
   \<and> ldr (snd (into E srv (w\<lparr>logged := l\<rparr>))) = ldr (snd (into E srv w))
   \<and> heap (snd (into E srv (w\<lparr>logged := l\<rparr>))) = heap (snd (into E srv w))"
proof -
  let ?w0 = "w\<lparr>logged := []\<rparr>"
  have "w\<lparr>logged := l\<rparr> = prepend_log l ?w0" by (simp add: prepend_log_def)
  then have a: "into E srv (w\<lparr>logged := l\<rparr>) = apsnd (prepend_log l) (into E srv ?w0)"
    by (simp only: pl_into)
  have "w = prepend_log (logged w) ?w0" by (simp add: prepend_log_def)
  then have "into E srv w = into E srv (prepend_log (logged w) ?w0)"
    by (rule arg_cong)
  then have b: "into E srv w = apsnd (prepend_log (logged w)) (into E srv ?w0)"
    by (simp only: pl_into)
  show ?thesis
    by (simp only: a b) simp
qed

lemma log_msg_as_update:
  "log_msg m t w = w\<lparr>logged := logged w @ (if verbose (options (ldr w)) then [(t, m)] else [])\<rparr>"
  by (simp add: log_msg_def)

text \<open>
  C7 as the code has it. The scanned location does not exist or is not a directory. The
  scan returns and changes nothing but the log, to which it adds one error-level message
  when the loader is verbose and nothing otherwise. A binding after it completes as it
  would have without that scan, with the same listeners.
\<close>

theorem scan_of_missing_directory_is_soft:
  assumes "\<not> existsSync E (path_join E (cwd (options (ldr w))) dirname)
         \<or> \<not> isDirectory E (path_join E (cwd (options (ldr w))) dirname)"
  shows "fst (when_dir E dirname w) = Returned
    \<and> ldr (snd (when_dir E dirname w)) = ldr w
    \<and> listeners (snd (when_dir E dirname w)) = listeners w
    \<and> take (length (logged w)) (logged (snd (when_dir E dirname w))) = logged w
    \<and> logged_since w (snd (when_dir E dirname w)) =
        (if verbose (options (ldr w))
         then [(LError,
                if \<not> existsSync E (path_join E (cwd (options (ldr w))) dirname)
                then ''Entity not found '' @ path_join E (cwd (options (ldr w))) dirname
                else path_join E (cwd (options (ldr w))) dirname @ '' not is an folder'')]
         else [])
    \<and> fst (into E srv (snd (when_dir E dirname w))) = fst (into E srv w)
    \<and> listeners (snd (into E srv (snd (when_dir E dirname w)))) = listeners (snd (into E srv w))"
proof -
  let ?loc = "path_join E (cwd (options (ldr w))) dirname"
  let ?m = "if \<not> existsSync E ?loc then ''Entity not found '' @ ?loc else ?loc @ '' not is an folder''"
  let ?l = "logged w @ (if verbose (options (ldr w)) then [(LError, ?m)] else [])"
  from assms have w: "when_dir E dirname w = (Returned, w\<lparr>logged := ?l\<rparr>)"
    by (auto simp: when_dir_def Let_def log_msg_as_update)
  note i = into_ignores_log [where E = E and srv = srv and w = w and l = ?l]
  from w i show ?thesis
    by (simp add: logged_since_def)
qed

theorem scan_of_missing_directory_is_soft_witness:
  "\<not> existsSync demo_env (path_join demo_env (cwd (options (ldr two_scanned))) ''nope'')
   \<and> verbose (options (ldr two_scanned))
   \<and> fst (when_dir demo_env ''nope'' two_scanned) = Returned
   \<and> files (ldr two_then_nope) = [''/app/two/ab.js'']
   \<and> logged_since two_scanned two_then_nope = [(LError, ''Entity not found /app/nope'')]
   \<and> fst (into demo_env srv0 two_then_nope) = Returned
   \<and> listeners (snd (into demo_env srv0 two_then_nope)) = listeners two_bound"
proof -
  have h1: "\<not> existsSync demo_env (path_join demo_env (cwd (options (ldr two_scanned))) ''nope'')"
    by code_simp
  have h2: "verbose (options (ldr two_scanned))" by code_simp
  have h3: "files (ldr two_scanned) = [''/app/two/ab.js'']" by code_simp
  have h4: "path_join demo_env (cwd (options (ldr two_scanned))) ''nope'' = ''/app/nope''" by code_simp
  have h5: "fst (into demo_env srv0 two_scanned) = Returned" by code_simp
  note t = scan_of_missing_directory_is_soft [of demo_env two_scanned "''nope''" srv0, OF disjI1, OF h1]
  from t h1 h2 h3 h4 h5 show ?thesis
    by (simp add: two_then_nope_def two_bound_def)
qed

text \<open>
  The claim C7 as it is written fails on a loader that is not verbose, which is the
  default: the scan of a missing directory logs nothing.
\<close>

theorem scan_of_missing_directory_counterexample:
  "\<not> existsSync demo_env (path_join demo_env (cwd (options (ldr quiet_world))) ''nope'')
   \<and> fst (when_dir demo_env ''nope'' quiet_world) = Returned
   \<and> logged (snd (when_dir demo_env ''nope'' quiet_world)) = []"
  by code_simp

subsection \<open>Listings in which every name has an extension\<close>

lemma scan_loop_frame:
  "scan_loop E location listing w = (c, w') \<Longrightarrow>
   options (ldr w') = options (ldr w) \<and> extraArguments (ldr w') = extraArguments (ldr w)
   \<and> listeners w' = listeners w \<and> heap w' = heap w \<and> calls w' = calls w"
proof (induction listing arbitrary: w)
  case Nil
  then show ?case by simp
next
  case (Cons filename rest)
  show ?case
  proof (cases "regex_exec filename")
    case None
    with Cons.prems show ?thesis by simp
  next
    case (Some extension)
    let ?w1 = "if extension \<notin> set (extensions (options (ldr w)))
       then log_msg (''Ignoring extension: '' @ extension) LInfo w
       else if take 1 filename = ''.''
       then log_msg (''Ignoring hidden entity: '' @ filename) LInfo w
       else push_file (path_join E location filename) w"
    from Some Cons.prems have "scan_loop E location rest ?w1 = (c, w')"
      by (simp split: if_splits)
    from Cons.IH [OF this] show ?thesis
      by (simp add: push_file_def split: if_splits)
  qed
qed

lemma scan_loop_accepts:
  "list_all (\<lambda>n. regex_exec n \<noteq> None) listing \<Longrightarrow>
   fst (scan_loop E location listing w) = Returned
   \<and> files (ldr (snd (scan_loop E location listing w))) =
       files (ldr w) @ map (path_join E location)
         (filter (accepted (extensions (options (ldr w)))) listing)"
proof (induction listing arbitrary: w)
  case Nil
  then show ?case by simp
next
  case (Cons filename rest)
  then obtain extension where e: "regex_exec filename = Some extension"
    by auto
  from Cons.prems have r: "list_all (\<lambda>n. regex_exec n \<noteq> None) rest"
    by simp
  show ?case
  proof (cases "extension \<in> set (extensions (options (ldr w)))")
    case False
    with e Cons.IH [OF r, of "log_msg (''Ignoring extension: '' @ extension) LInfo w"]
    show ?thesis by (simp add: accepted_def)
  next
    case True
    show ?thesis
    proof (cases "take 1 filename = ''.''")
      case True
      with e \<open>extension \<in> set (extensions (options (ldr w)))\<close>
        Cons.IH [OF r, of "log_msg (''Ignoring hidden entity: '' @ filename) LInfo w"]
      show ?thesis by (simp add: accepted_def)
    next
      case False
      with e \<open>extension \<in> set (extensions (options (ldr w)))\<close>
        Cons.IH [OF r, of "push_file (path_join E location filename) w"]
      show ?thesis by (simp add: accepted_def push_file_def)
    qed
  qed
qed

lemma when_dir_accepts:
  assumes "existsSync E (path_join E (cwd (options (ldr w))) dirname)"
    and "isDirectory E (path_join E (cwd (options (ldr w))) dirname)"
    and "list_all (\<lambda>n. regex_exec n \<noteq> None)
           (readdirSync E (path_join E (cwd (options (ldr w))) dirname))"
  shows "fst (when_dir E dirname w) = Returned"
    and "files (ldr (snd (when_dir E dirname w))) =
       files (ldr w) @ map (path_join E (path_join E (cwd (options (ldr w))) dirname))
         (filter (accepted (extensions (options (ldr w))))
            (readdirSync E (path_join E (cwd (options (ldr w))) dirname)))"
  using assms(1,2) scan_loop_accepts [OF assms(3), of E "path_join E (cwd (options (ldr w))) dirname" w]
  by (simp_all add: when_dir_def Let_def)

text \<open>
  C4 on a directory that holds \<^verbatim>\<open>a.js\<close>, \<^verbatim>\<open>b.\<close> and \<^verbatim>\<open>c.js\<close>: the scan throws at
  the second name, so \<^verbatim>\<open>c.js\<close>, which has an accepted extension and is not hidden, is
  never appended.
\<close>

theorem scan_stops_at_trailing_dot:
  "readdirSync demo_env ''/app/dots'' = [''a.js'', ''b.'', ''c.js'']
   \<and> accepted (extensions (options (ldr quiet_world))) ''c.js''
   \<and> fst (when_dir demo_env ''dots'' quiet_world) = Thrown (TypeError ''object null is not iterable'')
   \<and> files (ldr (snd (when_dir demo_env ''dots'' quiet_world))) = [''/app/dots/a.js'']"
  by code_simp

subsection \<open>Modules of plain functions\<close>

lemma export_step_plain:
  "is_plain i \<Longrightarrow>
   export_step E name i exports fns w =
     (Returned, exports, fns @ exports, log_msg (''loaded: '' @ name) LInfo w)"
  by (cases i) (simp_all add: export_step_def class_block_def)

lemma export_loop_plain:
  "list_all is_plain exports \<Longrightarrow>
   fst (export_loop E name k exports fns w) = Returned
   \<and> fst (snd (export_loop E name k exports fns w)) =
       fns @ concat (replicate (length exports - k) exports)"
proof (induction E name k exports fns w rule: export_loop.induct)
  case (1 E name k exports fns w)
  show ?case
  proof (cases "k < length exports")
    case False
    then show ?thesis by (simp add: export_loop_done)
  next
    case True
    with "1.prems" have "is_plain (exports ! k)" by (simp add: list_all_length)
    then have s: "export_step E name (exports ! k) exports fns w =
        (Returned, exports, fns @ exports, log_msg (''loaded: '' @ name) LInfo w)"
      by (rule export_step_plain)
    from True have "length exports - k = Suc (length exports - Suc k)" by simp
    then have r: "concat (replicate (length exports - k) exports) =
        exports @ concat (replicate (length exports - Suc k) exports)"
      by simp
    from "1.IH" [OF True s [symmetric] refl refl refl "1.prems"] export_loop_next [OF True s] r
    show ?thesis by simp
  qed
qed

lemma into_plain_module:
  assumes "files (ldr w) = [file]" and "require E file = Inr exports"
    and "list_all is_plain exports"
  shows "fst (into E srv w) = Returned"
    and "listeners (snd (into E srv w)) =
           listeners w @ [(srv, concat (replicate (length exports) exports))]"
proof -
  obtain c fns1 w1 where l: "export_loop E (loaded_name E file w) 0 exports [] w = (c, fns1, w1)"
    by (cases "export_loop E (loaded_name E file w) 0 exports [] w") auto
  from export_loop_plain [OF assms(3), of E "loaded_name E file w" 0 "[]" w] l
  have c: "c = Returned" and f: "fns1 = concat (replicate (length exports) exports)"
    by simp_all
  from export_loop_frame [OF l] have fr: "listeners w1 = listeners w" by simp
  from assms(1,2) l c show "fst (into E srv w) = Returned"
    by (simp add: into_def)
  from assms(1,2) l c f fr show "listeners (snd (into E srv w)) =
           listeners w @ [(srv, concat (replicate (length exports) exports))]"
    by (simp add: into_def)
qed

text \<open>
  C1 on a directory with one file that exports the plain functions \<open>a\<close> and \<open>b\<close>: the
  listener captures the export array once per export, and one connection event calls
  \<open>a\<close>, \<open>b\<close>, \<open>a\<close>, \<open>b\<close>.
\<close>

theorem two_exports_are_bound_twice:
  "files (ldr two_scanned) = [''/app/two/ab.js'']
   \<and> require demo_env ''/app/two/ab.js'' = Inr [VFun ''a'', VFun ''b'']
   \<and> into demo_env srv0 two_scanned = (Returned, two_bound)
   \<and> listeners two_bound = [(srv0, [VFun ''a'', VFun ''b'', VFun ''a'', VFun ''b''])]
   \<and> fst (emit_connection demo_env srv0 sock1 two_bound) = Returned
   \<and> calls (snd (emit_connection demo_env srv0 sock1 two_bound)) =
       [(VFun ''a'', [srv0, sock1]), (VFun ''b'', [srv0, sock1]),
        (VFun ''a'', [srv0, sock1]), (VFun ''b'', [srv0, sock1])]"
  by code_simp

text \<open>
  C5 on a file that exports a plain function \<open>f\<close> and then the class \<^verbatim>\<open>Counter\<close>, which
  has a \<^verbatim>\<open>connection\<close> method: one instance is created, but the listener has captured
  the class itself before its bound method, so a connection event calls \<open>f\<close>, throws at
  the class, and the instance's method is not reached.
\<close>

theorem class_after_function_is_not_reached:
  "require demo_env ''/app/mix/fc.js'' = Inr [VFun ''f'', VClass ''Counter'']
   \<and> listeners mix_bound = [(srv0, [VFun ''f'', VClass ''Counter'', VFun ''f'', VBound 0])]
   \<and> heap mix_bound = [(''Counter'', 0)]
   \<and> fst (emit_connection demo_env srv0 sock1 mix_bound) =
       Thrown (TypeError ''Class constructor Counter cannot be invoked without new'')
   \<and> calls (snd (emit_connection demo_env srv0 sock1 mix_bound)) = [(VFun ''f'', [srv0, sock1])]
   \<and> heap (snd (emit_connection demo_env srv0 sock1 mix_bound)) = [(''Counter'', 0)]"
  by code_simp

lemma single_class_file_reuses_instance:
  "listeners one_bound = [(srv0, [VBound 0])]
   \<and> heap one_bound = [(''Counter'', 0)]
   \<and> run demo_env [Connection srv0 sock1, Connection srv0 sock2] one_bound =
       (Returned, one_bound\<lparr>heap := [(''Counter'', 2)],
          calls := [(VBound 0, [srv0, sock1]), (VBound 0, [srv0, sock2])]\<rparr>)"
  by code_simp

subsection \<open>The cases of one turn of the export loop\<close>

lemma indexOf_Some: "indexOf xs v = Some j \<Longrightarrow> j < length xs \<and> xs ! j = v"
proof (induction xs arbitrary: j)
  case Nil
  then show ?case by simp
next
  case (Cons x xs)
  show ?case
  proof (cases "x = v")
    case True
    with Cons.prems show ?thesis by simp
  next
    case False
    with Cons.prems obtain j' where j': "indexOf xs v = Some j'" "j = Suc j'"
      by auto
    from Cons.IH [OF j'(1)] j'(2) show ?thesis by simp
  qed
qed

lemma indexOf_mem: "v \<in> set xs \<Longrightarrow> \<exists>j. indexOf xs v = Some j"
  by (induction xs) auto

lemma indexOf_le: "k < length xs \<Longrightarrow> indexOf xs (xs ! k) = Some j \<Longrightarrow> j \<le> k"
proof (induction xs arbitrary: k j)
  case Nil
  then show ?case by simp
next
  case (Cons x xs)
  show ?case
  proof (cases k)
    case 0
    with Cons.prems show ?thesis by simp
  next
    case (Suc k')
    show ?thesis
    proof (cases "x = xs ! k'")
      case True
      with Suc Cons.prems show ?thesis by simp
    next
      case False
      with Suc Cons.prems obtain j' where j': "indexOf xs (xs ! k') = Some j'" "j = Suc j'"
        by auto
      from Suc Cons.prems have "k' < length xs" by simp
      from Cons.IH [OF this j'(1)] j'(2) Suc show ?thesis by simp
    qed
  qed
qed

lemma class_block_cases:
  assumes "class_block E i exports w = (c, exports', w')"
  obtains
    (plain) "\<forall>c0. i \<noteq> VClass c0" "c = Returned" "exports' = exports" "w' = w"
  | (thrown) e where "c = Thrown e" "exports' = exports" "logged w' = logged w"
  | (bound) c0 j st m where "i = VClass c0" "indexOf exports i = Some j"
      "connection (classes E c0) = Method m" "c = Returned"
      "exports' = exports[j := VBound (length (heap w))]"
      "w' = w\<lparr>heap := heap w @ [(c0, st)]\<rparr>"
  | (absent) c0 st where "i = VClass c0" "connection (classes E c0) = Absent" "c = Returned"
      "exports' = exports"
      "w' = log_msg ''cannot load route'' LError (w\<lparr>heap := heap w @ [(c0, st)]\<rparr>)"
proof (cases i)
  case (VClass c0)
  show ?thesis
  proof (cases "indexOf exports i")
    case None
    with VClass assms have "c = Thrown (TypeError ''mod[mod.indexOf(...)] is not a constructor'')"
      "exports' = exports" "w' = w"
      by (simp_all add: class_block_def)
    then show ?thesis using thrown by simp
  next
    case (Some j)
    show ?thesis
    proof (cases "construct (classes E c0)")
      case (Inl message)
      with VClass Some assms have "c = Thrown (UserThrown message)" "exports' = exports" "w' = w"
        by (simp_all add: class_block_def)
      then show ?thesis using thrown by simp
    next
      case (Inr st)
      show ?thesis
      proof (cases "connection (classes E c0)")
        case Absent
        with VClass Some Inr assms have "c = Returned" "exports' = exports"
          "w' = log_msg ''cannot load route'' LError (w\<lparr>heap := heap w @ [(c0, st)]\<rparr>)"
          by (simp_all add: class_block_def Let_def)
        with VClass Absent show ?thesis using absent by simp
      next
        case NotCallable
        with VClass Some Inr assms
        have "c = Thrown (TypeError ''instance.connection.bind is not a function'')"
          "exports' = exports" "w' = w\<lparr>heap := heap w @ [(c0, st)]\<rparr>"
          by (simp_all add: class_block_def Let_def)
        then show ?thesis using thrown by simp
      next
        case (Method m)
        with VClass Some Inr assms have "c = Returned"
          "exports' = exports[j := VBound (length (heap w))]"
          "w' = w\<lparr>heap := heap w @ [(c0, st)]\<rparr>"
          by (simp_all add: class_block_def Let_def)
        with VClass Some Method show ?thesis using bound by simp
      qed
    qed
  qed
qed (use assms plain in \<open>simp_all add: class_block_def\<close>)

lemma export_step_cases:
  assumes "export_step E name i exports fns w = (c, exports', fns', w')"
  obtains
    (thrown) e where "c = Thrown e" "logged w' = logged w"
  | (returned) w1 where "class_block E i exports w = (Returned, exports', w1)" "c = Returned"
      "fns' = fns @ exports'" "w' = log_msg (''loaded: '' @ name) LInfo w1"
proof (cases "is_function i")
  case False
  with assms have "c = Thrown (Error ''module requires an function'')" "w' = w"
    by (simp_all add: export_step_def)
  then show ?thesis using thrown by simp
next
  case True
  obtain c1 ex1 w1 where cb: "class_block E i exports w = (c1, ex1, w1)"
    by (cases "class_block E i exports w") auto
  show ?thesis
  proof (cases c1)
    case Returned
    with True cb assms have "c = Returned" "exports' = ex1" "fns' = fns @ ex1"
      "w' = log_msg (''loaded: '' @ name) LInfo w1"
      by (auto simp: export_step_def)
    with cb Returned show ?thesis using returned by simp
  next
    case (Thrown e)
    with True cb assms have "c = Thrown e" "w' = w1"
      by (simp_all add: export_step_def)
    moreover from cb Thrown have "logged w1 = logged w"
      by (cases rule: class_block_cases) simp_all
    ultimately show ?thesis using thrown by simp
  qed
qed

subsection \<open>Binding returns on modules of callables\<close>

lemma bindable_is_function: "bindable E i \<Longrightarrow> is_function i"
  by (cases i) simp_all

lemma class_block_returns:
  assumes "i \<in> set exports" and "bindable E i"
  shows "\<exists>exports' w'. class_block E i exports w = (Returned, exports', w')"
proof (cases i)
  case (VClass c0)
  from indexOf_mem [OF assms(1)] obtain j where j: "indexOf exports i = Some j" ..
  from assms(2) VClass obtain st where st: "construct (classes E c0) = Inr st"
    and nc: "connection (classes E c0) \<noteq> NotCallable"
    by (auto split: sum.splits member.splits)
  from nc show ?thesis
    using VClass j st by (cases "connection (classes E c0)") (simp_all add: class_block_def Let_def)
qed (use assms in \<open>simp_all add: class_block_def\<close>)

lemma class_block_bindable:
  assumes "class_block E i exports w = (c, exports', w')" and "list_all (bindable E) exports"
  shows "list_all (bindable E) exports'"
  using assms(1)
proof (cases rule: class_block_cases)
  case (bound c0 j st m)
  have "set (exports[j := VBound (length (heap w))]) \<subseteq> insert (VBound (length (heap w))) (set exports)"
    by (rule set_update_subset_insert)
  with assms(2) bound(5) show ?thesis
    by (auto simp: list_all_iff)
qed (use assms(2) in simp_all)

lemma export_step_returns:
  assumes "i \<in> set exports" and "list_all (bindable E) exports"
  shows "\<exists>exports' fns' w'. export_step E name i exports fns w = (Returned, exports', fns', w')
     \<and> list_all (bindable E) exports'"
proof -
  from assms have b: "bindable E i" by (simp add: list_all_iff)
  from class_block_returns [OF assms(1) b] obtain ex1 w1
    where cb: "class_block E i exports w = (Returned, ex1, w1)" by blast
  from class_block_bindable [OF cb assms(2)] cb bindable_is_function [OF b]
  show ?thesis by (simp add: export_step_def)
qed

lemma export_loop_returns:
  "list_all (bindable E) exports \<Longrightarrow>
   \<exists>fns' w'. export_loop E name k exports fns w = (Returned, fns', w')"
proof (induction E name k exports fns w rule: export_loop.induct)
  case (1 E name k exports fns w)
  show ?case
  proof (cases "k < length exports")
    case False
    then show ?thesis by (simp add: export_loop_done)
  next
    case True
    then have "exports ! k \<in> set exports" by simp
    from export_step_returns [OF this "1.prems"] obtain ex1 fns1 w1
      where s: "export_step E name (exports ! k) exports fns w = (Returned, ex1, fns1, w1)"
        and b: "list_all (bindable E) ex1"
      by blast
    from "1.IH" [OF True s [symmetric] refl refl refl b] export_loop_next [OF True s]
    show ?thesis by simp
  qed
qed

lemma file_loop_returns:
  "list_all (loadable E) fs \<Longrightarrow> \<exists>fns' w'. file_loop E fs fns w = (Returned, fns', w')"
proof (induction fs arbitrary: fns w)
  case Nil
  then show ?case by simp
next
  case (Cons f fs)
  then obtain exports where r: "require E f = Inr exports" and b: "list_all (bindable E) exports"
    by (auto simp: loadable_def split: sum.splits)
  from export_loop_returns [OF b] obtain fns1 w1
    where l: "export_loop E (loaded_name E f w) 0 exports fns w = (Returned, fns1, w1)"
    by blast
  from Cons.prems have "list_all (loadable E) fs" by simp
  from Cons.IH [OF this, of fns1 w1] r l show ?case by simp
qed

subsection \<open>What binding logs\<close>

lemma logged_log_msg:
  "logged (log_msg m t w) = logged w @ (if verbose (options (ldr w)) then [(t, m)] else [])"
  by (simp add: log_msg_def)

lemma class_block_logged:
  assumes "class_block E i exports w = (c, exports', w')"
  shows "\<exists>l. logged w' = logged w @ l \<and> (\<not> verbose (options (ldr w)) \<longrightarrow> l = [])"
  using assms by (cases rule: class_block_cases) (simp_all add: logged_log_msg)

lemma export_step_logged:
  assumes "export_step E name i exports fns w = (c, exports', fns', w')"
  shows "\<exists>l. logged w' = logged w @ l \<and> (\<not> verbose (options (ldr w)) \<longrightarrow> l = [])"
  using assms
proof (cases rule: export_step_cases)
  case (thrown e)
  then show ?thesis by simp
next
  case (returned w1)
  from class_block_logged [OF returned(1)] class_block_frame [OF returned(1)] returned(4)
  show ?thesis by (auto simp: logged_log_msg)
qed

lemma export_loop_logged:
  "export_loop E name k exports fns w = (c, fns', w') \<Longrightarrow>
   \<exists>l. logged w' = logged w @ l \<and> (\<not> verbose (options (ldr w)) \<longrightarrow> l = [])"
proof (induction E name k exports fns w rule: export_loop.induct)
  case (1 E name k exports fns w)
  show ?case
  proof (cases "k < length exports")
    case False
    with "1.prems" show ?thesis by (simp add: export_loop_done)
  next
    case True
    obtain c1 ex1 fns1 w1 where s: "export_step E name (exports ! k) exports fns w = (c1, ex1, fns1, w1)"
      by (cases "export_step E name (exports ! k) exports fns w") auto
    from export_step_logged [OF s] obtain l1
      where l1: "logged w1 = logged w @ l1" "\<not> verbose (options (ldr w)) \<longrightarrow> l1 = []"
      by blast
    from export_step_frame [OF s] have fr: "ldr w1 = ldr w" by simp
    show ?thesis
    proof (cases c1)
      case Returned
      with True s "1.prems" have "export_loop E name (Suc k) ex1 fns1 w1 = (c, fns', w')"
        by (simp add: export_loop_next)
      from "1.IH" [OF True s [symmetric] Returned refl refl this] obtain l2
        where "logged w' = logged w1 @ l2" "\<not> verbose (options (ldr w1)) \<longrightarrow> l2 = []"
        by blast
      with l1 fr have "logged w' = logged w @ (l1 @ l2)"
        "\<not> verbose (options (ldr w)) \<longrightarrow> l1 @ l2 = []"
        by simp_all
      then show ?thesis by blast
    next
      case (Thrown e)
      with True s "1.prems" have "w' = w1" by (simp add: export_loop_thrown)
      with l1 show ?thesis by blast
    qed
  qed
qed

lemma file_loop_logged:
  "file_loop E fs fns w = (c, fns', w') \<Longrightarrow>
   \<exists>l. logged w' = logged w @ l \<and> (\<not> verbose (options (ldr w)) \<longrightarrow> l = [])"
proof (induction fs arbitrary: fns w)
  case Nil
  then show ?case by simp
next
  case (Cons f fs)
  show ?case
  proof (cases "require E f")
    case (Inl m)
    with Cons.prems show ?thesis by simp
  next
    case (Inr exports)
    obtain c1 fns1 w1 where l: "export_loop E (loaded_name E f w) 0 exports fns w = (c1, fns1, w1)"
      by (cases "export_loop E (loaded_name E f w) 0 exports fns w") auto
    from export_loop_logged [OF l] obtain l1
      where l1: "logged w1 = logged w @ l1" "\<not> verbose (options (ldr w)) \<longrightarrow> l1 = []"
      by blast
    from export_loop_frame [OF l] have fr: "ldr w1 = ldr w" by simp
    show ?thesis
    proof (cases c1)
      case Returned
      with Inr l Cons.prems have "file_loop E fs fns1 w1 = (c, fns', w')" by simp
      from Cons.IH [OF this] obtain l2
        where "logged w' = logged w1 @ l2" "\<not> verbose (options (ldr w1)) \<longrightarrow> l2 = []"
        by blast
      with l1 fr have "logged w' = logged w @ (l1 @ l2)"
        "\<not> verbose (options (ldr w)) \<longrightarrow> l1 @ l2 = []"
        by simp_all
      then show ?thesis by blast
    next
      case (Thrown e)
      with Inr l Cons.prems have "w' = w1" by simp
      with l1 show ?thesis by blast
    qed
  qed
qed

lemma class_block_keeps_later:
  assumes "class_block E (exports ! k) exports w = (c, exports', w')"
    and "k < length exports" and "k < p"
  shows "exports' ! p = exports ! p"
  using assms(1)
proof (cases rule: class_block_cases)
  case (bound c0 j st m)
  from indexOf_le [OF assms(2) bound(2)] assms(3) have "j \<noteq> p" by simp
  with bound(5) show ?thesis by simp
qed simp_all

lemma export_step_absent:
  assumes "export_step E name (VClass c0) exports fns w = (Returned, exports', fns', w')"
    and "connection (classes E c0) = Absent" and "verbose (options (ldr w))"
  shows "\<exists>l. logged w' = logged w @ l \<and> (LError, ''cannot load route'') \<in> set l"
  using assms(1)
proof (cases rule: export_step_cases)
  case (returned w1)
  from returned(1) show ?thesis
  proof (cases rule: class_block_cases)
    case (absent c1 st)
    with returned(4) assms(3) show ?thesis
      by (simp add: logged_log_msg)
  qed (use assms(2) in simp_all)
qed simp

lemma export_loop_logs_error:
  "export_loop E name k exports fns w = (Returned, fns', w') \<Longrightarrow> k \<le> p \<Longrightarrow>
   p < length exports \<Longrightarrow> exports ! p = VClass c0 \<Longrightarrow>
   connection (classes E c0) = Absent \<Longrightarrow> verbose (options (ldr w)) \<Longrightarrow>
   \<exists>l. logged w' = logged w @ l \<and> (LError, ''cannot load route'') \<in> set l"
proof (induction E name k exports fns w rule: export_loop.induct)
  case (1 E name k exports fns w)
  from "1.prems"(2,3) have k: "k < length exports" by simp
  obtain c1 ex1 fns1 w1 where s: "export_step E name (exports ! k) exports fns w = (c1, ex1, fns1, w1)"
    by (cases "export_step E name (exports ! k) exports fns w") auto
  have c1: "c1 = Returned"
  proof (cases c1)
    case (Thrown e)
    with k s "1.prems"(1) show ?thesis by (simp add: export_loop_thrown)
  qed simp
  with k s "1.prems"(1) have nxt: "export_loop E name (Suc k) ex1 fns1 w1 = (Returned, fns', w')"
    by (simp add: export_loop_next)
  from export_step_frame [OF s] have fr: "ldr w1 = ldr w" by simp
  show ?case
  proof (cases "k = p")
    case True
    with s c1 "1.prems"(4) have "export_step E name (VClass c0) exports fns w = (Returned, ex1, fns1, w1)"
      by simp
    from export_step_absent [OF this "1.prems"(5,6)] obtain l1
      where l1: "logged w1 = logged w @ l1" "(LError, ''cannot load route'') \<in> set l1"
      by blast
    from export_loop_logged [OF nxt] obtain l2 where "logged w' = logged w1 @ l2"
      by blast
    with l1 have "logged w' = logged w @ (l1 @ l2)" "(LError, ''cannot load route'') \<in> set (l1 @ l2)"
      by simp_all
    then show ?thesis by blast
  next
    case False
    with "1.prems"(2) have lt: "k < p" "Suc k \<le> p" by simp_all
    from length_export_step [OF s] "1.prems"(3) have len: "p < length ex1" by simp
    have "ex1 ! p = exports ! p"
      using s c1
    proof (cases rule: export_step_cases)
      case (returned w2)
      from class_block_keeps_later [OF returned(1) k lt(1)] show ?thesis .
    qed simp
    with "1.prems"(4) have ex1: "ex1 ! p = VClass c0" by simp
    from "1.prems"(6) fr have v: "verbose (options (ldr w1))" by simp
    from "1.IH" [OF k s [symmetric] c1 refl refl nxt lt(2) len ex1 "1.prems"(5) v] obtain l2
      where l2: "logged w' = logged w1 @ l2" "(LError, ''cannot load route'') \<in> set l2"
      by blast
    from export_step_logged [OF s] obtain l1 where "logged w1 = logged w @ l1"
      by blast
    with l2 have "logged w' = logged w @ (l1 @ l2)" "(LError, ''cannot load route'') \<in> set (l1 @ l2)"
      by simp_all
    then show ?thesis by blast
  qed
qed

lemma file_loop_logs_error:
  "file_loop E fs fns w = (Returned, fns', w') \<Longrightarrow> f \<in> set fs \<Longrightarrow>
   require E f = Inr exports \<Longrightarrow> VClass c0 \<in> set exports \<Longrightarrow>
   connection (classes E c0) = Absent \<Longrightarrow> verbose (options (ldr w)) \<Longrightarrow>
   \<exists>l. logged w' = logged w @ l \<and> (LError, ''cannot load route'') \<in> set l"
proof (induction fs arbitrary: fns w)
  case Nil
  then show ?case by simp
next
  case (Cons g fs)
  obtain ex_g where r: "require E g = Inr ex_g"
    using Cons.prems(1) by (cases "require E g") simp_all
  obtain c1 fns1 w1 where l: "export_loop E (loaded_name E g w) 0 ex_g fns w = (c1, fns1, w1)"
    by (cases "export_loop E (loaded_name E g w) 0 ex_g fns w") auto
  have c1: "c1 = Returned"
  proof (cases c1)
    case (Thrown e)
    with r l Cons.prems(1) show ?thesis by simp
  qed simp
  with r l Cons.prems(1) have rest: "file_loop E fs fns1 w1 = (Returned, fns', w')"
    by simp
  from export_loop_frame [OF l] have fr: "ldr w1 = ldr w" by simp
  show ?case
  proof (cases "g = f")
    case True
    with r Cons.prems(3) have "ex_g = exports" by simp
    with Cons.prems(4) obtain p where p: "p < length ex_g" "ex_g ! p = VClass c0"
      by (auto simp: in_set_conv_nth)
    from l c1 have "export_loop E (loaded_name E g w) 0 ex_g fns w = (Returned, fns1, w1)"
      by simp
    from export_loop_logs_error [OF this _ p Cons.prems(5,6)] obtain l1
      where l1: "logged w1 = logged w @ l1" "(LError, ''cannot load route'') \<in> set l1"
      by auto
    from file_loop_logged [OF rest] obtain l2 where "logged w' = logged w1 @ l2"
      by blast
    with l1 have "logged w' = logged w @ (l1 @ l2)" "(LError, ''cannot load route'') \<in> set (l1 @ l2)"
      by simp_all
    then show ?thesis by blast
  next
    case False
    with Cons.prems(2) have mem: "f \<in> set fs" by simp
    from Cons.prems(6) fr have v: "verbose (options (ldr w1))" by simp
    from Cons.IH [OF rest mem Cons.prems(3,4,5) v] obtain l2
      where l2: "logged w' = logged w1 @ l2" "(LError, ''cannot load route'') \<in> set l2"
      by blast
    from export_loop_logged [OF l] obtain l1 where "logged w1 = logged w @ l1"
      by blast
    with l2 have "logged w' = logged w @ (l1 @ l2)" "(LError, ''cannot load route'') \<in> set (l1 @ l2)"
      by simp_all
    then show ?thesis by blast
  qed
qed

text \<open>
  C2 as the code has it. Every discovered file loads and exports only callables that
  \<open>into\<close> can take, and one of them exports a class whose instances have no
  \<^verbatim>\<open>connection\<close> member. Then binding returns; when the loader is verbose the messages it
  logs include the error-level \<^verbatim>\<open>cannot load route\<close>, and when it is not, the log is
  left as it was.
\<close>

theorem class_without_connection_is_logged:
  assumes "list_all (loadable E) (files (ldr w))"
    and "file \<in> set (files (ldr w))" and "require E file = Inr exports"
    and "VClass c \<in> set exports" and "connection (classes E c) = Absent"
  shows "fst (into E srv w) = Returned
    \<and> take (length (logged w)) (logged (snd (into E srv w))) = logged w
    \<and> (if verbose (options (ldr w))
        then (LError, ''cannot load route'') \<in> set (logged_since w (snd (into E srv w)))
        else logged_since w (snd (into E srv w)) = [])"
proof -
  from file_loop_returns [OF assms(1)] obtain fns1 w1
    where l: "file_loop E (files (ldr w)) [] w = (Returned, fns1, w1)"
    by blast
  then have i: "into E srv w = (Returned, w1\<lparr>listeners := listeners w1 @ [(srv, fns1)]\<rparr>)"
    by (simp add: into_def)
  from file_loop_logged [OF l] obtain l1
    where l1: "logged w1 = logged w @ l1" "\<not> verbose (options (ldr w)) \<longrightarrow> l1 = []"
    by blast
  show ?thesis
  proof (cases "verbose (options (ldr w))")
    case True
    from file_loop_logs_error [OF l assms(2,3,4,5) True] obtain l2
      where "logged w1 = logged w @ l2" "(LError, ''cannot load route'') \<in> set l2"
      by blast
    with i True show ?thesis by (simp add: logged_since_def)
  next
    case False
    with i l1 show ?thesis by (simp add: logged_since_def)
  qed
qed

theorem class_without_connection_is_logged_witness:
  "list_all (loadable demo_env) (files (ldr bare_scanned))
   \<and> ''/app/bare/b.js'' \<in> set (files (ldr bare_scanned))
   \<and> require demo_env ''/app/bare/b.js'' = Inr [VClass ''Bare'']
   \<and> connection (classes demo_env ''Bare'') = Absent
   \<and> verbose (options (ldr bare_scanned))
   \<and> fst (into demo_env srv0 bare_scanned) = Returned
   \<and> (LError, ''cannot load route'') \<in> set (logged_since bare_scanned (snd (into demo_env srv0 bare_scanned)))"
proof -
  have h1: "list_all (loadable demo_env) (files (ldr bare_scanned))" by code_simp
  have h2: "''/app/bare/b.js'' \<in> set (files (ldr bare_scanned))" by code_simp
  have h3: "require demo_env ''/app/bare/b.js'' = Inr [VClass ''Bare'']" by code_simp
  have h4: "VClass ''Bare'' \<in> set [VClass ''Bare'']" by simp
  have h5: "connection (classes demo_env ''Bare'') = Absent"
    by (simp add: demo_env_def demo_classes_def)
  have h6: "verbose (options (ldr bare_scanned))" by code_simp
  from class_without_connection_is_logged [OF h1 h2 h3 h4 h5, of srv0] h6
  have "fst (into demo_env srv0 bare_scanned) = Returned
    \<and> (LError, ''cannot load route'') \<in> set (logged_since bare_scanned (snd (into demo_env srv0 bare_scanned)))"
    by simp
  with h1 h2 h3 h5 h6 show ?thesis by simp
qed

text \<open>
  The claim C2 as it is written fails: on a loader with the default options, binding a
  file that exports only the class \<^verbatim>\<open>Bare\<close> logs nothing, and the connection event that
  follows calls the class, which the listener has captured, and throws.
\<close>

theorem class_without_connection_counterexample:
  "require demo_env ''/app/bare/b.js'' = Inr [VClass ''Bare'']
   \<and> connection (classes demo_env ''Bare'') = Absent
   \<and> files (ldr bare_quiet) = [''/app/bare/b.js'']
   \<and> fst (into demo_env srv0 bare_quiet) = Returned
   \<and> logged (snd (into demo_env srv0 bare_quiet)) = []
   \<and> listeners (snd (into demo_env srv0 bare_quiet)) = [(srv0, [VClass ''Bare''])]
   \<and> fst (emit_connection demo_env srv0 sock1 (snd (into demo_env srv0 bare_quiet))) =
       Thrown (TypeError ''Class constructor Bare cannot be invoked without new'')"
proof -
  have "connection (classes demo_env ''Bare'') = Absent"
    by (simp add: demo_env_def demo_classes_def)
  moreover have "require demo_env ''/app/bare/b.js'' = Inr [VClass ''Bare'']
   \<and> files (ldr bare_quiet) = [''/app/bare/b.js'']
   \<and> fst (into demo_env srv0 bare_quiet) = Returned
   \<and> logged (snd (into demo_env srv0 bare_quiet)) = []
   \<and> listeners (snd (into demo_env srv0 bare_quiet)) = [(srv0, [VClass ''Bare''])]
   \<and> fst (emit_connection demo_env srv0 sock1 (snd (into demo_env srv0 bare_quiet))) =
       Thrown (TypeError ''Class constructor Bare cannot be invoked without new'')"
    by code_simp
  ultimately show ?thesis by simp
qed

end
